theory Spec2Isabelle
  imports Complex_Main "HOL-Library.Sublist"
begin

section \<open>Strings and result formats\<close>

text \<open>
  A Python \<open>str\<close> that holds query text is a sequence of Unicode code points: a list of
  natural numbers. \<open>str s\<close> is the text of an ASCII literal \<open>s\<close>.
\<close>

type_synonym ustring = "nat list"

definition str :: "string \<Rightarrow> ustring" where
  "str s = map of_char s"

text \<open>
  \<open>str.upper()\<close> replaces every code point by its full upper-case mapping of the Unicode
  tables (one code point, or several: U+FB00 becomes \<open>FF\<close>), whatever stands around it.
  The tables belong to the Python interpreter, not to the repository: the mapping \<open>up\<close>
  of one code point is a parameter. What is known of it is what it does on ASCII, where
  it is \<open>ascii_upper\<close>.
\<close>

definition upper :: "(nat \<Rightarrow> ustring) \<Rightarrow> ustring \<Rightarrow> ustring" where
  "upper up s = concat (map up s)"

definition ascii_upper :: "nat \<Rightarrow> nat" where
  "ascii_upper c = (if 97 \<le> c \<and> c \<le> 122 then c - 32 else c)"

definition unicode_on_ascii :: "(nat \<Rightarrow> ustring) \<Rightarrow> bool" where
  "unicode_on_ascii up = (\<forall>c<128. up c = [ascii_upper c])"

definition ascii :: "ustring \<Rightarrow> bool" where
  "ascii s = list_all (\<lambda>c. c < 128) s"

text \<open>
  Names of formats arrive as short strings of 8-bit characters; \<open>str.lower\<close> on them is
  modelled on the ASCII letters, every other character left as it is.
\<close>

definition lower_char :: "char \<Rightarrow> char" where
  "lower_char c =
     (let n = (of_char c :: nat) in if 65 \<le> n \<and> n \<le> 90 then char_of (n + 32) else c)"

definition lower :: "string \<Rightarrow> string" where
  "lower s = map lower_char s"

text \<open>\<open>p in s\<close> on Python strings: \<open>p\<close> occurs in \<open>s\<close> as a contiguous substring.\<close>

fun contains :: "'a list \<Rightarrow> 'a list \<Rightarrow> bool" where
  "contains p [] = (p = [])"
| "contains p (c # cs) = (prefix p (c # cs) \<or> contains p cs)"

text \<open>The number of positions of \<open>s\<close> at which \<open>p\<close> starts.\<close>

fun occurrences :: "'a list \<Rightarrow> 'a list \<Rightarrow> nat" where
  "occurrences p [] = (if p = [] then 1 else 0)"
| "occurrences p (c # cs) = (if prefix p (c # cs) then 1 else 0) + occurrences p cs"

text \<open>
  Containment without regard to case, as the specification words it and not as the code
  computes it: two code points are the same letter when they are equal or are the upper
  and the lower case of one ASCII letter; \<open>ci_contains k s\<close> holds when some stretch of
  \<open>s\<close> is \<open>k\<close> letter by letter in that sense.
\<close>

definition ci_eq :: "nat \<Rightarrow> nat \<Rightarrow> bool" where
  "ci_eq c d =
     (c = d \<or> (65 \<le> c \<and> c \<le> 90 \<and> d = c + 32) \<or> (65 \<le> d \<and> d \<le> 90 \<and> c = d + 32))"

fun ci_prefix :: "ustring \<Rightarrow> ustring \<Rightarrow> bool" where
  "ci_prefix [] s = True"
| "ci_prefix (k # ks) [] = False"
| "ci_prefix (k # ks) (c # cs) = (ci_eq k c \<and> ci_prefix ks cs)"

fun ci_contains :: "ustring \<Rightarrow> ustring \<Rightarrow> bool" where
  "ci_contains k [] = (k = [])"
| "ci_contains k (c # cs) = (ci_prefix k (c # cs) \<or> ci_contains k cs)"

text \<open>\<open>formats.py\<close>: the enumeration \<open>ResultFormat(str, Enum)\<close> and the value of each member.\<close>

datatype ResultFormat =
  JSON | JSON_COMPACT | PRETTY | CSV | TSV | PARQUET | ARROW | NATIVE | NULL

fun format_value :: "ResultFormat \<Rightarrow> string" where
  "format_value JSON = ''json''"
| "format_value JSON_COMPACT = ''JSONCompact''"
| "format_value PRETTY = ''Pretty''"
| "format_value CSV = ''CSV''"
| "format_value TSV = ''TSV''"
| "format_value PARQUET = ''Parquet''"
| "format_value ARROW = ''Arrow''"
| "format_value NATIVE = ''Native''"
| "format_value NULL = ''Null''"

text \<open>
  \<open>connection.py\<close>, \<open>execute_with_format\<close>, the rewriting of the query text:
  \<^verbatim>\<open>if "FORMAT" not in query.upper(): query = f"{query} FORMAT {format_name.value}"\<close>
\<close>

definition inject_format :: "(nat \<Rightarrow> ustring) \<Rightarrow> ustring \<Rightarrow> ResultFormat \<Rightarrow> ustring" where
  "inject_format up query format_name =
     (if \<not> contains (str ''FORMAT'') (upper up query)
      then query @ str '' FORMAT '' @ str (format_value format_name)
      else query)"

section \<open>Errors, values and requests\<close>

text \<open>
  Exceptions are values. \<open>ClickHouseError\<close> stands for \<open>clickhouse_driver.errors.Error\<close>
  and its subclasses (imported in \<open>pool.py\<close> as \<open>ClickHouseError\<close>), \<open>RetryError\<close> for
  \<open>tenacity.RetryError\<close>, which wraps the exception of the last attempt,
  \<open>ValueErrorFrom prefix e\<close> for \<open>ValueError(prefix + str(e))\<close>, and \<open>OtherError\<close> for any
  exception outside these classes.
\<close>

datatype error =
    ClickHouseError string
  | RetryError error
  | TypeError string
  | ValueError string
  | ValueErrorFrom string error
  | IndexError
  | OtherError string

text \<open>\<open>isinstance(e, ClickHouseError)\<close>, the test of \<open>retry_if_exception_type\<close>.\<close>

fun is_ClickHouseError :: "error \<Rightarrow> bool" where
  "is_ClickHouseError (ClickHouseError m) = True"
| "is_ClickHouseError e = False"

datatype val = VNone | VInt int | VStr string

type_synonym row = "val list"

datatype params = NoParams | DictParams "(string \<times> val) list" | RowParams "val list list"

datatype result =
    Rows "row list"
  | RowsWithTypes "row list" "(string \<times> string) list"
  | Text string

text \<open>
  What a call hands to the driver's \<open>execute\<close>. The \<open>query_id\<close> argument is passed
  through unchanged everywhere and is left out.
\<close>

record request =
  query :: ustring
  params :: params
  with_column_types :: bool
  settings :: "(string \<times> val) list option"

section \<open>\<open>connection.py\<close>: one connection\<close>

text \<open>
  The mutable state of a \<open>ClickHouseConnection\<close>: \<open>client\<close> is \<open>self._client is not None\<close>,
  \<open>in_use\<close> is \<open>self._in_use\<close>, \<open>last_used\<close> is \<open>self._last_used\<close> (a timestamp; times
  are real numbers here).
\<close>

record connection =
  client :: bool
  in_use :: bool
  last_used :: real

definition new_connection :: connection where
  "new_connection = \<lparr>client = False, in_use = False, last_used = 0\<rparr>"

text \<open>
  \<open>connect\<close>: the driver client is built (which opens no connection and is taken to
  succeed) and probed with \<open>SELECT 1\<close>; \<open>probe\<close> is what the probe does, \<open>None\<close> for
  success and \<open>Some e\<close> for the exception raised. On failure the client is set back to
  \<open>None\<close> and the exception is raised again.
\<close>

definition connect :: "error option \<Rightarrow> connection \<Rightarrow> (error + unit) \<times> connection" where
  "connect probe c =
     (case probe of
        None \<Rightarrow> (Inr (), c\<lparr>client := True\<rparr>)
      | Some e \<Rightarrow> (Inl e, c\<lparr>client := False\<rparr>))"

definition disconnect :: "connection \<Rightarrow> connection" where
  "disconnect c = (if client c then c\<lparr>client := False\<rparr> else c)"

text \<open>
  \<open>execute\<close>: the lazy connect stands before the \<open>try\<close>; inside it the flag is set, the
  driver is called, \<open>last_used\<close> is written after a successful call only, and the
  \<open>finally\<close> clause clears the flag. \<open>driver\<close> is the driver's answer to a request,
  \<open>now\<close> the reading of \<open>time.time()\<close>.
\<close>

definition execute ::
  "error option \<Rightarrow> (request \<Rightarrow> error + 'r) \<Rightarrow> real \<Rightarrow> request \<Rightarrow> connection
   \<Rightarrow> (error + 'r) \<times> connection" where
  "execute probe driver now req c =
     (case (if \<not> client c then connect probe c else (Inr (), c)) of
        (Inl e, c1) \<Rightarrow> (Inl e, c1)
      | (Inr u, c1) \<Rightarrow>
          (let c2 = c1\<lparr>in_use := True\<rparr> in
           case driver req of
             Inr res \<Rightarrow> (Inr res, c2\<lparr>last_used := now, in_use := False\<rparr>)
           | Inl e \<Rightarrow> (Inl e, c2\<lparr>in_use := False\<rparr>)))"

text \<open>
  \<open>execute_with_format\<close>: as \<open>execute\<close>, with the query text rewritten by
  \<open>inject_format\<close> and no \<open>with_column_types\<close> argument (the driver's default, false).
\<close>

definition execute_with_format ::
  "(nat \<Rightarrow> ustring) \<Rightarrow> error option \<Rightarrow> (request \<Rightarrow> error + 'r) \<Rightarrow> real \<Rightarrow> request
   \<Rightarrow> ResultFormat \<Rightarrow> connection \<Rightarrow> (error + 'r) \<times> connection" where
  "execute_with_format up probe driver now req format_name c =
     (case (if \<not> client c then connect probe c else (Inr (), c)) of
        (Inl e, c1) \<Rightarrow> (Inl e, c1)
      | (Inr u, c1) \<Rightarrow>
          (let req' = req\<lparr>query := inject_format up (query req) format_name,
                          with_column_types := False\<rparr>;
               c2 = c1\<lparr>in_use := True\<rparr> in
           case driver req' of
             Inr res \<Rightarrow> (Inr res, c2\<lparr>last_used := now, in_use := False\<rparr>)
           | Inl e \<Rightarrow> (Inl e, c2\<lparr>in_use := False\<rparr>)))"

text \<open>
  \<open>execute_iter\<close> is a generator function: calling it runs none of its body. The
  generator object is \<open>NotStarted\<close>, then \<open>Suspended\<close> at the \<open>yield\<close> with the rows the
  driver's iterator still holds and the exception it ends with, if any, then
  \<open>Finished\<close>. \<open>next_row\<close> is one \<open>next()\<close> on it, \<open>close_generator\<close> its \<open>close()\<close>
  (\<open>GeneratorExit\<close> at the \<open>yield\<close> passes the \<open>except Exception\<close> clause and runs the
  \<open>finally\<close> clause).
\<close>

datatype generator = NotStarted | Suspended "row list" "error option" | Finished

datatype step = Yield row | StopIteration | Raise error

definition resume :: "real \<Rightarrow> row list \<Rightarrow> error option \<Rightarrow> connection
                      \<Rightarrow> step \<times> generator \<times> connection" where
  "resume now rows ending c =
     (case rows of
        r # rs \<Rightarrow> (Yield r, Suspended rs ending, c)
      | [] \<Rightarrow>
          (case ending of
             None \<Rightarrow> (StopIteration, Finished, c\<lparr>last_used := now, in_use := False\<rparr>)
           | Some e \<Rightarrow> (Raise e, Finished, c\<lparr>in_use := False\<rparr>)))"

definition next_row ::
  "error option \<Rightarrow> (request \<Rightarrow> error + row list \<times> error option) \<Rightarrow> real \<Rightarrow> request
   \<Rightarrow> generator \<Rightarrow> connection \<Rightarrow> step \<times> generator \<times> connection" where
  "next_row probe driver_iter now req g c =
     (case g of
        NotStarted \<Rightarrow>
          (case (if \<not> client c then connect probe c else (Inr (), c)) of
             (Inl e, c1) \<Rightarrow> (Raise e, Finished, c1)
           | (Inr u, c1) \<Rightarrow>
               (let c2 = c1\<lparr>in_use := True\<rparr> in
                case driver_iter req of
                  Inl e \<Rightarrow> (Raise e, Finished, c2\<lparr>in_use := False\<rparr>)
                | Inr (rows, ending) \<Rightarrow> resume now rows ending c2))
      | Suspended rows ending \<Rightarrow> resume now rows ending c
      | Finished \<Rightarrow> (StopIteration, Finished, c))"

definition close_generator :: "generator \<Rightarrow> connection \<Rightarrow> generator \<times> connection" where
  "close_generator g c =
     (case g of
        NotStarted \<Rightarrow> (Finished, c)
      | Suspended rows ending \<Rightarrow> (Finished, c\<lparr>in_use := False\<rparr>)
      | Finished \<Rightarrow> (Finished, c))"

section \<open>\<open>pool.py\<close>: the connection pool\<close>

text \<open>
  Connections are objects shared between the pool and their holders, so the pool state
  carries a store: \<open>conns\<close> maps the identity of a connection (a number, \<open>next_conn\<close> the
  next unused one) to its state, and \<open>members\<close> is the list \<open>self._pool\<close> of identities.
\<close>

record pool =
  conns :: "nat \<Rightarrow> connection"
  next_conn :: nat
  members :: "nat list"
  pool_size :: int
  pool_recycle :: int

definition new_pool :: "int \<Rightarrow> int \<Rightarrow> pool" where
  "new_pool max_size recycle =
     \<lparr>conns = (\<lambda>i. new_connection), next_conn = 0, members = [],
      pool_size = max_size, pool_recycle = recycle\<rparr>"

definition put :: "nat \<Rightarrow> connection \<Rightarrow> pool \<Rightarrow> pool" where
  "put i c p = p\<lparr>conns := (conns p)(i := c)\<rparr>"

text \<open>\<open>conn._in_use = True\<close> on the connection \<open>i\<close> of the store.\<close>

definition mark_in_use :: "nat \<Rightarrow> pool \<Rightarrow> pool" where
  "mark_in_use i p = put i ((conns p i)\<lparr>in_use := True\<rparr>) p"

definition idle :: "pool \<Rightarrow> nat \<Rightarrow> bool" where
  "idle p i = (\<not> in_use (conns p i))"

text \<open>
  The first loop of \<open>get_connection\<close>. Only the first member not in use is looked at:
  a stale one is disconnected and removed and the loop is left (\<open>break\<close>), any other is
  marked and returned. \<open>Some i\<close> is the connection returned, \<open>None\<close> the fall-through.
\<close>

definition scan :: "real \<Rightarrow> pool \<Rightarrow> nat option \<times> pool" where
  "scan now p =
     (case find (idle p) (members p) of
        None \<Rightarrow> (None, p)
      | Some i \<Rightarrow>
          if now - last_used (conns p i) > real_of_int (pool_recycle p)
          then (None, (put i (disconnect (conns p i)) p)\<lparr>members := remove1 i (members p)\<rparr>)
          else (Some i, mark_in_use i p))"

text \<open>\<open>_create_connection\<close>: a new connection object, connected at once.\<close>

definition create_connection :: "error option \<Rightarrow> pool \<Rightarrow> (error + nat) \<times> pool" where
  "create_connection probe p =
     (let i = next_conn p;
          (r, c) = connect probe new_connection;
          p1 = (put i c p)\<lparr>next_conn := Suc i\<rparr>
      in case r of Inl e \<Rightarrow> (Inl e, p1) | Inr u \<Rightarrow> (Inr i, p1))"

text \<open>The exit of the context manager \<open>connection()\<close>: \<open>conn._in_use = False\<close>.\<close>

definition release :: "nat \<Rightarrow> pool \<Rightarrow> pool" where
  "release i p = put i ((conns p i)\<lparr>in_use := False\<rparr>) p"

text \<open>
  The polling loop \<open>while True\<close>. Between two polls the coroutine sleeps and the holders
  of connections run; \<open>releases\<close> lists, for each sleep in turn, the connections released
  during it. When the list is used up nothing changes any more and the loop polls for
  ever: the result \<open>None\<close>.
\<close>

fun wait_loop :: "nat list list \<Rightarrow> pool \<Rightarrow> nat option \<times> pool" where
  "wait_loop [] p =
     (case find (idle p) (members p) of
        Some i \<Rightarrow> (Some i, mark_in_use i p)
      | None \<Rightarrow> (None, p))"
| "wait_loop (during_sleep # later) p =
     (case find (idle p) (members p) of
        Some i \<Rightarrow> (Some i, mark_in_use i p)
      | None \<Rightarrow> wait_loop later (fold release during_sleep p))"

text \<open>
  \<open>get_connection\<close>. The result \<open>None\<close> is a call that does not return, \<open>Some (Inl e)\<close>
  one that raises \<open>e\<close>, \<open>Some (Inr i)\<close> one that returns the connection \<open>i\<close>.
\<close>

definition get_connection ::
  "error option \<Rightarrow> nat list list \<Rightarrow> real \<Rightarrow> pool \<Rightarrow> (error + nat) option \<times> pool" where
  "get_connection probe releases now p =
     (case scan now p of
        (Some i, p1) \<Rightarrow> (Some (Inr i), p1)
      | (None, p1) \<Rightarrow>
          if int (length (members p1)) < pool_size p1
          then (case create_connection probe p1 of
                  (Inl e, p2) \<Rightarrow> (Some (Inl e), p2)
                | (Inr i, p2) \<Rightarrow>
                    (Some (Inr i), (mark_in_use i p2)\<lparr>members := members p2 @ [i]\<rparr>))
          else (case wait_loop releases p1 of
                  (None, p2) \<Rightarrow> (None, p2)
                | (Some i, p2) \<Rightarrow> (Some (Inr i), p2)))"

text \<open>
  The context manager \<open>connection()\<close>: \<open>async with self.connection() as conn: body\<close>
  checks a connection out, runs the body and releases the connection in its \<open>finally\<close>
  clause, whether the body returned or raised.
\<close>

definition with_connection ::
  "error option \<Rightarrow> nat list list \<Rightarrow> real \<Rightarrow> (nat \<Rightarrow> pool \<Rightarrow> (error + 'a) \<times> pool) \<Rightarrow> pool
   \<Rightarrow> (error + 'a) option \<times> pool" where
  "with_connection probe releases now body p =
     (case get_connection probe releases now p of
        (None, p1) \<Rightarrow> (None, p1)
      | (Some (Inl e), p1) \<Rightarrow> (Some (Inl e), p1)
      | (Some (Inr i), p1) \<Rightarrow> (case body i p1 of (r, p2) \<Rightarrow> (Some r, release i p2)))"

text \<open>
  What surrounds one call: the outcome of a connect, should one be made, the releases
  by other holders during the polls, the clock read by \<open>get_connection\<close> and the clock
  read after the driver's call, and the driver's answer to a request.
\<close>

record world =
  w_probe :: "error option"
  w_releases :: "nat list list"
  w_clock :: real
  w_finished :: real
  w_driver :: "request \<Rightarrow> error + result"

text \<open>\<open>ClickHouseConnectionPool.execute\<close> and \<open>execute_with_format\<close>.\<close>

definition pool_execute :: "world \<Rightarrow> request \<Rightarrow> pool \<Rightarrow> (error + result) option \<times> pool" where
  "pool_execute w req p =
     with_connection (w_probe w) (w_releases w) (w_clock w)
       (\<lambda>i p1. case execute (w_probe w) (w_driver w) (w_finished w) req (conns p1 i) of
                  (r, c) \<Rightarrow> (r, put i c p1)) p"

definition pool_execute_with_format ::
  "(nat \<Rightarrow> ustring) \<Rightarrow> world \<Rightarrow> request \<Rightarrow> ResultFormat \<Rightarrow> pool
   \<Rightarrow> (error + result) option \<times> pool" where
  "pool_execute_with_format up w req format_name p =
     with_connection (w_probe w) (w_releases w) (w_clock w)
       (\<lambda>i p1. case execute_with_format up (w_probe w) (w_driver w) (w_finished w) req format_name
                       (conns p1 i) of
                  (r, c) \<Rightarrow> (r, put i c p1)) p"

text \<open>
  \<open>close\<close>: every member is disconnected and the list is emptied.
\<close>

definition close_pool :: "pool \<Rightarrow> pool" where
  "close_pool p = (fold (\<lambda>i q. put i (disconnect (conns q i)) q) (members p) p)\<lparr>members := []\<rparr>"

text \<open>
  The members of a pool are connection objects that exist: identities below
  \<open>next_conn\<close>.
\<close>

definition valid_pool :: "pool \<Rightarrow> bool" where
  "valid_pool p = list_all (\<lambda>i. i < next_conn p) (members p)"

text \<open>
  A sequence of acquisitions with no release: one \<open>get_connection\<close> per clock reading,
  every connect succeeding, nothing released during a poll.
\<close>

fun acquisitions :: "real list \<Rightarrow> pool \<Rightarrow> (error + nat) option list \<times> pool" where
  "acquisitions [] p = ([], p)"
| "acquisitions (t # ts) p =
     (case get_connection None [] t p of
        (r, p1) \<Rightarrow> (case acquisitions ts p1 of (rs, p2) \<Rightarrow> (r # rs, p2)))"

section \<open>\<open>pool.py\<close>: the client\<close>

text \<open>
  The decorator on \<open>ClickHouseClient.execute\<close> and \<open>execute_with_format\<close> is
  \<^verbatim>\<open>@retry(retry=retry_if_exception_type(ClickHouseError), stop=stop_after_attempt(3),
         wait=wait_exponential(multiplier=1, min=1, max=10))\<close>
  of the library tenacity, which is not part of the repository. Its loop is modelled as
  the library documents it: attempts are numbered from 1; an attempt that returns ends
  the loop with its value; an exception the \<open>retry\<close> predicate rejects is raised as it
  is; an exception it accepts ends the loop once \<open>stop\<close> holds, and then, \<open>reraise\<close>
  being left at its default \<open>False\<close>, a \<open>RetryError\<close> wrapping the attempt is raised;
  otherwise the loop sleeps \<open>wait\<close> seconds and tries again.
  \<open>wait_exponential\<close> after attempt \<open>n\<close> is
  \<open>max(max(0, min), min(multiplier * 2 ** (n - 1), max))\<close>.
\<close>

definition wait_exponential :: "nat \<Rightarrow> real" where
  "wait_exponential attempt_number = max (max 0 1) (min (1 * 2 ^ (attempt_number - 1)) 10)"

text \<open>
  \<open>retrying cap attempt n s\<close>: the loop from attempt \<open>n\<close> on, in state \<open>s\<close>. It returns the
  outcome (\<open>None\<close> when an attempt does not return), the number of the last attempt made,
  the sleeps between the attempts and the final state.
\<close>

function retrying ::
  "nat \<Rightarrow> (nat \<Rightarrow> 's \<Rightarrow> (error + 'a) option \<times> 's) \<Rightarrow> nat \<Rightarrow> 's
   \<Rightarrow> (error + 'a) option \<times> nat \<times> real list \<times> 's" where
  "retrying cap attempt n s =
     (case attempt n s of
        (None, s1) \<Rightarrow> (None, n, [], s1)
      | (Some (Inr v), s1) \<Rightarrow> (Some (Inr v), n, [], s1)
      | (Some (Inl e), s1) \<Rightarrow>
          if \<not> is_ClickHouseError e then (Some (Inl e), n, [], s1)
          else if cap \<le> n then (Some (Inl (RetryError e)), n, [], s1)
          else (case retrying cap attempt (Suc n) s1 of
                  (r, k, sleeps, s2) \<Rightarrow> (r, k, wait_exponential n # sleeps, s2)))"
  by pat_completeness auto
termination
  by (relation "measure (\<lambda>(cap, attempt, n, s). cap - n)") auto

declare retrying.simps [simp del]

text \<open>The configuration of a \<open>ClickHouseClient\<close> that the operations read.\<close>

record client_cfg =
  default_database :: string
  query_timeout :: int

text \<open>
  \<^verbatim>\<open>if settings is None: settings = {}\<close>,
  \<^verbatim>\<open>if "max_execution_time" not in settings: settings["max_execution_time"] = self.query_timeout\<close>.
  A dictionary is a list of pairs in insertion order.
\<close>

definition with_timeout :: "client_cfg \<Rightarrow> (string \<times> val) list option \<Rightarrow> (string \<times> val) list" where
  "with_timeout cfg given =
     (let s = (case given of None \<Rightarrow> [] | Some d \<Rightarrow> d)
      in if ''max_execution_time'' \<notin> set (map fst s)
         then s @ [(''max_execution_time'', VInt (query_timeout cfg))]
         else s)"

text \<open>
  \<open>ClickHouseClient.execute\<close> and \<open>execute_with_format\<close>. The body under the decorator
  is one attempt: the timeout is put into the settings and the call goes to the pool;
  \<open>worlds n\<close> is what surrounds attempt \<open>n\<close>.
\<close>

definition client_attempt ::
  "client_cfg \<Rightarrow> (nat \<Rightarrow> world) \<Rightarrow> request \<Rightarrow> nat \<Rightarrow> pool \<Rightarrow> (error + result) option \<times> pool" where
  "client_attempt cfg worlds req n p =
     pool_execute (worlds n) (req\<lparr>settings := Some (with_timeout cfg (settings req))\<rparr>) p"

definition client_attempt_with_format ::
  "client_cfg \<Rightarrow> (nat \<Rightarrow> ustring) \<Rightarrow> (nat \<Rightarrow> world) \<Rightarrow> request \<Rightarrow> ResultFormat \<Rightarrow> nat \<Rightarrow> pool
   \<Rightarrow> (error + result) option \<times> pool" where
  "client_attempt_with_format cfg up worlds req format_name n p =
     pool_execute_with_format up (worlds n)
       (req\<lparr>settings := Some (with_timeout cfg (settings req))\<rparr>) format_name p"

definition client_execute ::
  "client_cfg \<Rightarrow> (nat \<Rightarrow> world) \<Rightarrow> request \<Rightarrow> pool
   \<Rightarrow> (error + result) option \<times> nat \<times> real list \<times> pool" where
  "client_execute cfg worlds req p = retrying 3 (client_attempt cfg worlds req) 1 p"

definition client_execute_with_format ::
  "client_cfg \<Rightarrow> (nat \<Rightarrow> ustring) \<Rightarrow> (nat \<Rightarrow> world) \<Rightarrow> request \<Rightarrow> ResultFormat \<Rightarrow> pool
   \<Rightarrow> (error + result) option \<times> nat \<times> real list \<times> pool" where
  "client_execute_with_format cfg up worlds req format_name p =
     retrying 3 (client_attempt_with_format cfg up worlds req format_name) 1 p"

text \<open>\<open>database or self.database\<close>: \<open>None\<close> and the empty string are false.\<close>

definition or_default :: "string option \<Rightarrow> client_cfg \<Rightarrow> string" where
  "or_default database cfg =
     (case database of
        None \<Rightarrow> default_database cfg
      | Some d \<Rightarrow> if d = [] then default_database cfg else d)"









text \<open>
  Reading the attribute \<open>connection\<close>. On the pool it is a method; calling it with no
  argument gives the context manager. On the client it is declared with \<open>@property\<close> and
  returns \<open>self._pool.connection()\<close>: reading it already gives the context manager object
  (none of \<open>get_connection\<close> has run yet). Calling that object with no argument raises
  \<open>TypeError\<close>: an object made by \<open>contextlib.asynccontextmanager\<close> takes the function it is
  to decorate as the argument of its call (\<open>AsyncContextDecorator.__call__(self, func)\<close>,
  Python 3.10 and later; before that it is not callable at all).
\<close>

datatype attribute_value = Method | ManagerObject

definition pool_connection_attribute :: attribute_value where
  "pool_connection_attribute = Method"

definition client_connection_attribute :: attribute_value where
  "client_connection_attribute = ManagerObject"

fun call_no_arguments :: "attribute_value \<Rightarrow> error + unit" where
  "call_no_arguments Method = Inr ()"
| "call_no_arguments ManagerObject =
     Inl (TypeError ''__call__() missing 1 required positional argument'')"

text \<open>\<open>sep.join(xs)\<close> and \<open>row.get(col)\<close> on a dictionary given as a list of pairs.\<close>

fun join :: "string \<Rightarrow> string list \<Rightarrow> string" where
  "join sep [] = []"
| "join sep [x] = x"
| "join sep (x # y # ys) = x @ sep @ join sep (y # ys)"

definition dict_get :: "(string \<times> val) list \<Rightarrow> string \<Rightarrow> val" where
  "dict_get d k = (case map_of d k of None \<Rightarrow> VNone | Some v \<Rightarrow> v)"

record insert_result =
  i_database :: string
  i_table :: string
  rows_inserted :: nat

text \<open>
  \<open>insert_data\<close>. The statement is built from the keys of the first row; then comes
  \<^verbatim>\<open>async with self.connection() as conn:\<close>, the call of the client's attribute.
\<close>

definition insert_request ::
  "client_cfg \<Rightarrow> string \<Rightarrow> (string \<times> val) list \<Rightarrow> (string \<times> val) list list \<Rightarrow> string option
   \<Rightarrow> (string \<times> val) list option \<Rightarrow> request" where
  "insert_request cfg table first data database given =
     (let db = or_default database cfg;
          columns = map fst first;
          values = map (\<lambda>row. map (dict_get row) columns) data
      in \<lparr>query = str (''INSERT INTO '' @ db @ ''.'' @ table @ '' ('' @ join '', '' columns
                        @ '') VALUES''),
          params = RowParams values, with_column_types = False,
          settings = Some (with_timeout cfg given)\<rparr>)"

definition insert_data ::
  "client_cfg \<Rightarrow> world \<Rightarrow> string \<Rightarrow> (string \<times> val) list list \<Rightarrow> string option
   \<Rightarrow> (string \<times> val) list option \<Rightarrow> pool \<Rightarrow> (error + insert_result) option \<times> pool" where
  "insert_data cfg w table data database given p =
     (case data of
        [] \<Rightarrow>
          (Some (Inr \<lparr>i_database = or_default database cfg, i_table = table,
                      rows_inserted = 0\<rparr>), p)
      | first # rest \<Rightarrow>
          let db = or_default database cfg;
              req = insert_request cfg table first data database given
          in case call_no_arguments client_connection_attribute of
               Inl e \<Rightarrow> (Some (Inl e), p)
             | Inr u \<Rightarrow>
                 (case with_connection (w_probe w) (w_releases w) (w_clock w)
                         (\<lambda>i p1. case execute (w_probe w) (w_driver w) (w_finished w) req
                                         (conns p1 i) of
                                   (r, c) \<Rightarrow> (r, put i c p1)) p of
                    (None, p1) \<Rightarrow> (None, p1)
                  | (Some (Inl e), p1) \<Rightarrow> (Some (Inl e), p1)
                  | (Some (Inr r), p1) \<Rightarrow>
                      (Some (Inr \<lparr>i_database = db, i_table = table,
                                  rows_inserted = length data\<rparr>), p1)))"

section \<open>\<open>api/tools/query.py\<close>: the query tool\<close>

definition all_formats :: "ResultFormat list" where
  "all_formats = [JSON, JSON_COMPACT, PRETTY, CSV, TSV, PARQUET, ARROW, NATIVE, NULL]"

text \<open>\<open>ResultFormat(value)\<close>: the member with that value, \<open>ValueError\<close> when there is none.\<close>

definition ResultFormat_of_value :: "string \<Rightarrow> error + ResultFormat" where
  "ResultFormat_of_value v =
     (case find (\<lambda>f. format_value f = v) all_formats of
        Some f \<Rightarrow> Inr f
      | None \<Rightarrow> Inl (ValueError (v @ '' is not a valid ResultFormat'')))"

text \<open>
  \<^verbatim>\<open>try: result_format = ResultFormat(format.lower())\<close>
  \<^verbatim>\<open>except ValueError: result_format = ResultFormat.JSON\<close>
\<close>

definition resolve_format :: "string \<Rightarrow> ResultFormat" where
  "resolve_format format =
     (case ResultFormat_of_value (lower format) of Inr f \<Rightarrow> f | Inl e \<Rightarrow> JSON)"

text \<open>\<open>dict(pairs)\<close>: a key met again keeps its place and takes the later value.\<close>

fun dict_set :: "string \<Rightarrow> val \<Rightarrow> (string \<times> val) list \<Rightarrow> (string \<times> val) list" where
  "dict_set k v [] = [(k, v)]"
| "dict_set k v ((k', v') # d) = (if k' = k then (k, v) # d else (k', v') # dict_set k v d)"

definition dict_of :: "(string \<times> val) list \<Rightarrow> (string \<times> val) list" where
  "dict_of pairs = foldl (\<lambda>d (k, v). dict_set k v d) [] pairs"

text \<open>
  The reshaping of the structured-object format:
  \<^verbatim>\<open>columns = [col[0] for col in result_data[1]]\<close> and, for each row,
  \<^verbatim>\<open>dict(zip(columns, row))\<close>.
\<close>

definition reshape :: "row list \<Rightarrow> (string \<times> string) list \<Rightarrow> (string \<times> val) list list" where
  "reshape rs cols = map (\<lambda>r. dict_of (zip (map fst cols) r)) rs"

text \<open>\<open>result_str.count("\n")\<close>; on a result that is not text the method counts elements equal to the string, none.\<close>

fun newlines :: "result \<Rightarrow> nat" where
  "newlines (Text t) = count_list t (CHR 0x0A)"
| "newlines r = 0"

datatype tool_data = Unshaped result | Objects "(string \<times> val) list list"

text \<open>The dictionary the tool returns, without its \<open>duration\<close> (a difference of clock readings).\<close>

record query_output =
  out_result :: tool_data
  out_rows :: nat
  out_query :: ustring
  out_format :: string

text \<open>
  The tool \<open>query\<close>. Every exception is caught and raised again as
  \<open>ValueError("Query execution failed: " + str(e))\<close>. The results of a request with
  \<open>with_column_types\<close> are pairs; on another shape the indexing fails, which the model
  raises as \<open>TypeError\<close>.
\<close>

definition query_tool ::
  "client_cfg \<Rightarrow> (nat \<Rightarrow> ustring) \<Rightarrow> (nat \<Rightarrow> world) \<Rightarrow> ustring \<Rightarrow> string \<Rightarrow> params \<Rightarrow> pool
   \<Rightarrow> (error + query_output) option \<times> pool" where
  "query_tool cfg up worlds sql format ps p =
     (let result_format = resolve_format format;
          failed = (\<lambda>e. Inl (ValueErrorFrom ''Query execution failed: '' e))
      in if result_format = PRETTY
         then (case client_execute_with_format cfg up worlds
                      \<lparr>query = sql, params = ps, with_column_types = False, settings = None\<rparr>
                      result_format p of
                 (None, k, sleeps, p1) \<Rightarrow> (None, p1)
               | (Some (Inl e), k, sleeps, p1) \<Rightarrow> (Some (failed e), p1)
               | (Some (Inr result_str), k, sleeps, p1) \<Rightarrow>
                   (Some (Inr \<lparr>out_result = Unshaped result_str, out_rows = newlines result_str,
                               out_query = sql, out_format = format\<rparr>), p1))
         else (case client_execute cfg worlds
                      \<lparr>query = sql, params = ps, with_column_types = True, settings = None\<rparr> p of
                 (None, k, sleeps, p1) \<Rightarrow> (None, p1)
               | (Some (Inl e), k, sleeps, p1) \<Rightarrow> (Some (failed e), p1)
               | (Some (Inr result_data), k, sleeps, p1) \<Rightarrow>
                   (case result_data of
                      RowsWithTypes rs cols \<Rightarrow>
                        (Some (Inr \<lparr>out_result =
                                      (if result_format = JSON then Objects (reshape rs cols)
                                       else Unshaped result_data),
                                    out_rows = length rs, out_query = sql,
                                    out_format = format\<rparr>), p1)
                    | _ \<Rightarrow> (Some (failed (TypeError ''result shape'')), p1))))"

text \<open>
  For the examples: a client configuration, and the surroundings of a call in which
  every connect succeeds, nothing is released meanwhile, the clocks read 1000 and 1001,
  and the driver answers by \<open>d\<close>.
\<close>

definition example_cfg :: client_cfg where
  "example_cfg = \<lparr>default_database = ''default'', query_timeout = 60\<rparr>"

definition answering :: "(request \<Rightarrow> error + result) \<Rightarrow> world" where
  "answering d =
     \<lparr>w_probe = None, w_releases = [], w_clock = 1000, w_finished = 1001, w_driver = d\<rparr>"

text \<open>
  More for the examples: a backend error; the pool of size 1 after a call that failed
  and after a call that succeeded at time 1001; a driver that knows no table; a driver
  that answers with one row.
\<close>

definition refused :: error where
  "refused = ClickHouseError ''Code: 210. Connection refused''"

definition idle_pool :: pool where
  "idle_pool = \<lparr>conns = (\<lambda>i. new_connection)(0 := \<lparr>client = True, in_use = False, last_used = 0\<rparr>),
                 next_conn = 1, members = [0], pool_size = 1, pool_recycle = 3600\<rparr>"

definition served_pool :: pool where
  "served_pool = \<lparr>conns = (\<lambda>i. new_connection)(0 := \<lparr>client = True, in_use = False, last_used = 1001\<rparr>),
                   next_conn = 1, members = [0], pool_size = 1, pool_recycle = 3600\<rparr>"


definition one_row_driver :: "request \<Rightarrow> error + result" where
  "one_row_driver r =
     (if with_column_types r
      then Inr (RowsWithTypes [[VInt 1, VStr ''x'']] [(''id'', ''UInt8''), (''name'', ''String'')])
      else Inr (Text ''formatted''))"

text \<open>The upper-case ASCII letters.\<close>

definition is_upper_case :: "char \<Rightarrow> bool" where
  "is_upper_case c = (65 \<le> (of_char c :: nat) \<and> (of_char c :: nat) \<le> 90)"

text \<open>The state after \<open>k\<close> acquisitions from an empty pool: \<open>k\<close> members, all in use.\<close>

definition filled :: "nat \<Rightarrow> pool \<Rightarrow> bool" where
  "filled k p = (members p = [0..<k] \<and> next_conn p = k \<and> list_all (\<lambda>i. in_use (conns p i)) (members p))"

text \<open>
  Two upper-case mappings for the examples: one that changes the ASCII letters only, and
  one that also knows the ligature U+FB00, whose upper case is \<open>FF\<close>.
\<close>

definition ascii_only :: "nat \<Rightarrow> ustring" where
  "ascii_only c = [ascii_upper c]"

definition with_ligature :: "nat \<Rightarrow> ustring" where
  "with_ligature c = (if c = 64256 then [70, 70] else [ascii_upper c])"

text \<open>A request used in the examples.\<close>

definition select_one :: request where
  "select_one = \<lparr>query = str ''SELECT 1'', params = NoParams, with_column_types = False, settings = None\<rparr>"

text \<open>
  A pool of size 1 whose one connection was acquired, used for one query at time 1000 and
  released.
\<close>

definition used_once :: pool where
  "used_once =
     (let p1 = snd (get_connection None [] 1000 (new_pool 1 3600));
          r = execute None (\<lambda>q. Inr (Rows [[VInt 1]])) 1000 select_one (conns p1 0)
      in release 0 (put 0 (snd r) p1))"

section \<open>Facts about substrings\<close>

lemma contains_append_left: "contains p (p @ b)"
proof (cases "p @ b")
  case Nil
  then show ?thesis by simp
next
  case (Cons x xs)
  have "prefix p (p @ b)" by simp
  with Cons show ?thesis by simp
qed

lemma contains_append: "contains p (a @ p @ b)"
proof (induction a)
  case Nil
  show ?case using contains_append_left by simp
next
  case (Cons x a)
  then show ?case by simp
qed

lemma contains_append_right: "contains p b \<Longrightarrow> contains p (a @ b)"
proof (induction a)
  case Nil
  then show ?case by simp
next
  case (Cons x a)
  then show ?case by simp
qed

lemma contains_prefix: "prefix p s \<Longrightarrow> contains p s"
  by (cases s) auto

lemma occurrences_zero_iff: "p \<noteq> [] \<Longrightarrow> occurrences p s = 0 \<longleftrightarrow> \<not> contains p s"
  by (induction s) auto

lemma prefix_no_straddle:
  assumes "c \<notin> set p"
  shows "prefix p (xs @ c # ys) \<longleftrightarrow> prefix p xs"
proof
  assume "prefix p (xs @ c # ys)"
  then consider "prefix p xs" | us where "p = xs @ us" "prefix us (c # ys)"
    by (auto simp: prefix_append)
  then show "prefix p xs"
  proof cases
    case 1
    then show ?thesis .
  next
    case 2
    show ?thesis
    proof (cases us)
      case Nil
      with 2 show ?thesis by simp
    next
      case (Cons u us')
      with 2 have "u = c" by simp
      with 2 Cons assms show ?thesis by simp
    qed
  qed
next
  assume "prefix p xs"
  then show "prefix p (xs @ c # ys)" by (rule prefix_prefix)
qed

lemma occurrences_no_straddle:
  assumes "c \<notin> set p" "p \<noteq> []"
  shows "occurrences p (xs @ c # ys) = occurrences p xs + occurrences p (c # ys)"
  using assms
proof (induction xs)
  case Nil
  then show ?case by simp
next
  case (Cons x xs)
  have "prefix p (x # xs @ c # ys) \<longleftrightarrow> prefix p (x # xs)"
    using prefix_no_straddle [OF Cons.prems(1), of "x # xs" ys] by simp
  with Cons show ?case by simp
qed

lemma upper_append: "upper up (a @ b) = upper up a @ upper up b"
  by (simp add: upper_def)

lemma upper_ascii: "unicode_on_ascii up \<Longrightarrow> ascii s \<Longrightarrow> upper up s = map ascii_upper s"
  by (induction s) (auto simp: upper_def unicode_on_ascii_def ascii_def)

lemma ascii_directive: "ascii (str '' FORMAT '')"
  by (simp add: str_def ascii_def)

lemma ascii_format_value: "ascii (str (format_value f))"
  by (cases f) (simp_all add: str_def ascii_def)

lemma upper_directive: "unicode_on_ascii up \<Longrightarrow> upper up (str '' FORMAT '') = str '' FORMAT ''"
  using upper_ascii [OF _ ascii_directive, of up] by (simp add: str_def ascii_upper_def)

lemma format_value_no_keyword:
  "unicode_on_ascii up \<Longrightarrow> occurrences (str ''FORMAT'') (upper up (str (format_value f))) = 0"
  using upper_ascii [OF _ ascii_format_value, of up f]
  by (cases f) (simp_all add: str_def ascii_upper_def)

lemma upper_around_directive:
  "unicode_on_ascii up \<Longrightarrow>
   upper up (a @ str '' FORMAT '' @ b) = upper up a @ str '' FORMAT '' @ upper up b"
  by (simp only: upper_append upper_directive)

lemma directive_split: "str '' FORMAT '' = 32 # str ''FORMAT'' @ [32]"
  by (simp add: str_def)

lemma keyword_facts: "(32::nat) \<notin> set (str ''FORMAT'')" "str ''FORMAT'' \<noteq> []"
  "occurrences (str ''FORMAT'') (str ''FORMAT'') = 1"
  by (simp_all add: str_def)

lemma directive_once:
  assumes "unicode_on_ascii up"
  shows "occurrences (str ''FORMAT'') (str '' FORMAT '' @ upper up (str (format_value f))) = 1"
proof -
  have "occurrences (str ''FORMAT'') (str ''FORMAT'' @ 32 # upper up (str (format_value f)))
        = occurrences (str ''FORMAT'') (str ''FORMAT'')
          + occurrences (str ''FORMAT'') (32 # upper up (str (format_value f)))"
    by (rule occurrences_no_straddle) (rule keyword_facts)+
  moreover have "\<not> prefix (str ''FORMAT'') (32 # xs)" for xs
    by (simp add: str_def)
  ultimately show ?thesis
    using format_value_no_keyword [OF assms, of f] keyword_facts(3)
    by (simp add: directive_split)
qed

lemma occurrences_injected:
  assumes "unicode_on_ascii up" "\<not> contains (str ''FORMAT'') (upper up q)"
  shows "occurrences (str ''FORMAT'') (upper up (q @ str '' FORMAT '' @ str (format_value f))) = 1"
proof -
  have zero: "occurrences (str ''FORMAT'') (upper up q) = 0"
    using assms(2) keyword_facts(2) by (simp add: occurrences_zero_iff)
  have "occurrences (str ''FORMAT'')
          (upper up q @ 32 # (str ''FORMAT'' @ [32]) @ upper up (str (format_value f)))
        = occurrences (str ''FORMAT'') (upper up q)
          + occurrences (str ''FORMAT'')
              (32 # (str ''FORMAT'' @ [32]) @ upper up (str (format_value f)))"
    by (rule occurrences_no_straddle) (rule keyword_facts)+
  then show ?thesis
    using zero directive_once [OF assms(1), of f] upper_around_directive [OF assms(1), of q]
    by (simp add: directive_split)
qed

lemma contains_injected:
  assumes "unicode_on_ascii up"
  shows "contains (str ''FORMAT'') (upper up (q @ str '' FORMAT '' @ str (format_value f)))"
proof -
  have "upper up (q @ str '' FORMAT '' @ str (format_value f))
        = (upper up q @ [32]) @ str ''FORMAT'' @ ([32] @ upper up (str (format_value f)))"
    using upper_around_directive [OF assms, of q "str (format_value f)"]
    by (simp add: directive_split)
  then show ?thesis
    using contains_append [of "str ''FORMAT''" "upper up q @ [32]"
        "[32] @ upper up (str (format_value f))"]
    by simp
qed

subsection \<open>Containment without regard to case\<close>

lemma ci_prefix_upper:
  assumes "unicode_on_ascii up" "list_all (\<lambda>k. 65 \<le> k \<and> k \<le> 90) k"
  shows "ci_prefix k s \<Longrightarrow> prefix k (upper up s)"
  using assms(2)
proof (induction k s rule: ci_prefix.induct)
  case (1 s)
  then show ?case by simp
next
  case (2 k ks)
  then show ?case by simp
next
  case (3 k ks c cs)
  from 3 have k: "65 \<le> k" "k \<le> 90" and eq: "ci_eq k c" by simp_all
  then have "c < 128" and "ascii_upper c = k"
    by (auto simp: ci_eq_def ascii_upper_def)
  with assms(1) have "up c = [k]" by (simp add: unicode_on_ascii_def)
  with 3 show ?case by (simp add: upper_def)
qed

lemma ci_contains_upper:
  assumes "unicode_on_ascii up" "list_all (\<lambda>k. 65 \<le> k \<and> k \<le> 90) k"
  shows "ci_contains k s \<Longrightarrow> contains k (upper up s)"
proof (induction s)
  case Nil
  then show ?case by (simp add: upper_def)
next
  case (Cons c cs)
  show ?case
  proof (cases "ci_prefix k (c # cs)")
    case True
    from ci_prefix_upper [OF assms this] show ?thesis by (rule contains_prefix)
  next
    case False
    with Cons have "contains k (upper up cs)" by simp
    then have "contains k (up c @ upper up cs)" by (rule contains_append_right)
    then show ?thesis by (simp add: upper_def)
  qed
qed

lemma prefix_upper_ci: "prefix k (map ascii_upper s) \<Longrightarrow> ci_prefix k s"
proof (induction k s rule: ci_prefix.induct)
  case (1 s)
  then show ?case by simp
next
  case (2 k ks)
  then show ?case by simp
next
  case (3 k ks c cs)
  then have "k = ascii_upper c" and "prefix ks (map ascii_upper cs)" by simp_all
  with 3 show ?case by (auto simp: ci_eq_def ascii_upper_def)
qed

lemma contains_upper_ci: "k \<noteq> [] \<Longrightarrow> contains k (map ascii_upper s) \<Longrightarrow> ci_contains k s"
proof (induction s)
  case Nil
  then show ?case by simp
next
  case (Cons c cs)
  show ?case
  proof (cases "prefix k (map ascii_upper (c # cs))")
    case True
    from prefix_upper_ci [OF this] show ?thesis by simp
  next
    case False
    with Cons show ?thesis by simp
  qed
qed

lemma keyword_capitals: "list_all (\<lambda>k. 65 \<le> k \<and> k \<le> 90) (str ''FORMAT'')"
  by (simp add: str_def)

text \<open>
  C9. \<open>execute_with_format\<close> appends \<open>' FORMAT <name>'\<close> exactly when \<open>FORMAT\<close> does not
  occur in the upper-cased query, and calls the driver with the resulting text. For
  every upper-case mapping that is Unicode's on ASCII: the rewriting is idempotent (a
  second pass, with any format, leaves the text as it is); a query that did not carry
  the keyword carries it exactly once after one pass and after two; a query that
  contains the keyword in any mixture of cases is left as it is; and a query of ASCII
  characters is left as it is only then.
\<close>

theorem inject_format_idempotent:
  "(inject_format up q f = (if contains (str ''FORMAT'') (upper up q) then q
                            else q @ str '' FORMAT '' @ str (format_value f)))
   \<and> (unicode_on_ascii up \<longrightarrow>
        (inject_format up q f \<noteq> q \<longleftrightarrow> \<not> contains (str ''FORMAT'') (upper up q))
        \<and> inject_format up (inject_format up q f) g = inject_format up q f
        \<and> contains (str ''FORMAT'') (upper up (inject_format up q f))
        \<and> (\<not> contains (str ''FORMAT'') (upper up q) \<longrightarrow>
             occurrences (str ''FORMAT'') (upper up (inject_format up q f)) = 1
             \<and> occurrences (str ''FORMAT'')
                  (upper up (inject_format up (inject_format up q f) f)) = 1)
        \<and> (ci_contains (str ''FORMAT'') q \<longrightarrow> inject_format up q f = q)
        \<and> (ascii q \<longrightarrow> (inject_format up q f = q \<longleftrightarrow> ci_contains (str ''FORMAT'') q)))
   \<and> (client c \<longrightarrow>
        fst (execute_with_format up probe driver now req f c)
          = driver (req\<lparr>query := inject_format up (query req) f, with_column_types := False\<rparr>))"
proof -
  have sent: "fst (execute_with_format up probe driver now req f c)
      = driver (req\<lparr>query := inject_format up (query req) f, with_column_types := False\<rparr>)"
    if "client c"
    using that by (simp add: execute_with_format_def Let_def split: sum.splits)
  have a: "inject_format up q f = (if contains (str ''FORMAT'') (upper up q) then q
                            else q @ str '' FORMAT '' @ str (format_value f))"
    by (simp add: inject_format_def)
  have b: "(inject_format up q f \<noteq> q \<longleftrightarrow> \<not> contains (str ''FORMAT'') (upper up q))
        \<and> inject_format up (inject_format up q f) g = inject_format up q f
        \<and> contains (str ''FORMAT'') (upper up (inject_format up q f))
        \<and> (\<not> contains (str ''FORMAT'') (upper up q) \<longrightarrow>
             occurrences (str ''FORMAT'') (upper up (inject_format up q f)) = 1
             \<and> occurrences (str ''FORMAT'')
                  (upper up (inject_format up (inject_format up q f) f)) = 1)
        \<and> (ci_contains (str ''FORMAT'') q \<longrightarrow> inject_format up q f = q)
        \<and> (ascii q \<longrightarrow> (inject_format up q f = q \<longleftrightarrow> ci_contains (str ''FORMAT'') q))"
    if u: "unicode_on_ascii up"
  proof -
    have changed: "inject_format up q f \<noteq> q \<longleftrightarrow> \<not> contains (str ''FORMAT'') (upper up q)"
      by (simp add: inject_format_def str_def)
    have kept: "contains (str ''FORMAT'') (upper up (inject_format up q f))"
      using contains_injected [OF u, of q f] by (simp add: inject_format_def)
    have idem: "inject_format up (inject_format up q f) h = inject_format up q f" for h
      using kept by (simp add: inject_format_def [of up "inject_format up q f"])
    have once: "\<not> contains (str ''FORMAT'') (upper up q) \<Longrightarrow>
        occurrences (str ''FORMAT'') (upper up (inject_format up q f)) = 1"
      using occurrences_injected [OF u, of q f] by (simp add: inject_format_def)
    have any_case: "inject_format up q f = q" if "ci_contains (str ''FORMAT'') q"
      using ci_contains_upper [OF u keyword_capitals that] by (simp add: inject_format_def)
    have only: "ci_contains (str ''FORMAT'') q" if "ascii q" "inject_format up q f = q"
    proof -
      from that(2) changed have "contains (str ''FORMAT'') (upper up q)" by blast
      with upper_ascii [OF u that(1)] keyword_facts(2) show ?thesis
        by (simp add: contains_upper_ci)
    qed
    show ?thesis
      using changed kept idem [of f] idem [of g] once any_case only by auto
  qed
  show ?thesis using a b sent by blast
qed

theorem inject_format_idempotent_witness:
  "unicode_on_ascii with_ligature
   \<and> inject_format with_ligature (str ''SELECT 1'') PRETTY = str ''SELECT 1 FORMAT Pretty''
   \<and> inject_format with_ligature (inject_format with_ligature (str ''SELECT 1'') PRETTY) PRETTY
       = str ''SELECT 1 FORMAT Pretty''
   \<and> occurrences (str ''FORMAT'')
         (upper with_ligature
            (inject_format with_ligature (inject_format with_ligature (str ''SELECT 1'') PRETTY)
               PRETTY)) = 1
   \<and> ascii (str ''select 1 Format csv'') \<and> ci_contains (str ''FORMAT'') (str ''select 1 Format csv'')
   \<and> inject_format with_ligature (str ''select 1 Format csv'') PRETTY = str ''select 1 Format csv''
   \<and> fst (execute_with_format with_ligature None
             (\<lambda>r. if query r = str ''SELECT 1 FORMAT Pretty'' then Inr (Text ''1'') else Inl IndexError)
             5 select_one PRETTY \<lparr>client = True, in_use = False, last_used = 0\<rparr>)
       = Inr (Text ''1'')"
proof -
  have u: "unicode_on_ascii with_ligature"
    by (simp add: unicode_on_ascii_def with_ligature_def)
  have absent: "\<not> contains (str ''FORMAT'') (upper with_ligature (str ''SELECT 1''))"
    by (simp add: str_def upper_def with_ligature_def ascii_upper_def)
  have first: "inject_format with_ligature (str ''SELECT 1'') PRETTY = str ''SELECT 1 FORMAT Pretty''"
    using absent by (simp add: inject_format_def str_def)
  have lower_case: "ascii (str ''select 1 Format csv'')"
    "ci_contains (str ''FORMAT'') (str ''select 1 Format csv'')"
    by (simp_all add: str_def ascii_def ci_eq_def)
  note first_pass = inject_format_idempotent [where up = with_ligature and q = "str ''SELECT 1''"
      and f = PRETTY and g = PRETTY
      and c = "\<lparr>client = True, in_use = False, last_used = 0\<rparr>" and probe = None
      and driver = "\<lambda>r. if query r = str ''SELECT 1 FORMAT Pretty'' then Inr (Text ''1'')
                          else Inl IndexError"
      and now = 5 and req = select_one]
  note lower_pass = inject_format_idempotent [where up = with_ligature
      and q = "str ''select 1 Format csv''" and f = PRETTY and g = PRETTY
      and c = "\<lparr>client = True, in_use = False, last_used = 0\<rparr>" and probe = None
      and driver = "\<lambda>r. if query r = str ''SELECT 1 FORMAT Pretty'' then Inr (Text ''1'')
                          else Inl IndexError"
      and now = 5 and req = select_one]
  have twice: "inject_format with_ligature (inject_format with_ligature (str ''SELECT 1'') PRETTY)
      PRETTY = inject_format with_ligature (str ''SELECT 1'') PRETTY"
    using first_pass u by blast
  have once: "occurrences (str ''FORMAT'')
         (upper with_ligature
            (inject_format with_ligature (inject_format with_ligature (str ''SELECT 1'') PRETTY)
               PRETTY)) = 1"
    using first_pass u absent by blast
  have kept: "inject_format with_ligature (str ''select 1 Format csv'') PRETTY
      = str ''select 1 Format csv''"
    using lower_pass u lower_case by blast
  have connected: "client \<lparr>client = True, in_use = False, last_used = 0\<rparr>" by simp
  have sent: "fst (execute_with_format with_ligature None
             (\<lambda>r. if query r = str ''SELECT 1 FORMAT Pretty'' then Inr (Text ''1'') else Inl IndexError)
             5 select_one PRETTY \<lparr>client = True, in_use = False, last_used = 0\<rparr>)
       = (\<lambda>r. if query r = str ''SELECT 1 FORMAT Pretty'' then Inr (Text ''1'') else Inl IndexError)
           (select_one\<lparr>query := inject_format with_ligature (query select_one) PRETTY,
                         with_column_types := False\<rparr>)"
    using first_pass connected by blast
  have "query select_one = str ''SELECT 1''" by (simp add: select_one_def)
  with sent first have answered: "fst (execute_with_format with_ligature None
             (\<lambda>r. if query r = str ''SELECT 1 FORMAT Pretty'' then Inr (Text ''1'') else Inl IndexError)
             5 select_one PRETTY \<lparr>client = True, in_use = False, last_used = 0\<rparr>)
       = Inr (Text ''1'')"
    by simp
  show ?thesis
    using u first twice once lower_case kept answered by simp
qed

text \<open>
  The query \<open>SELECT '.ormat'\<close> with the ligature U+FB00 for the dot: its upper case contains
  \<open>FORMAT\<close>, so nothing is appended; a mapping without the ligature would append.
\<close>

lemma ligature_query:
  "inject_format with_ligature (str ''SELECT '' @ [39, 64256] @ str ''ormat'' @ [39]) PRETTY
     = str ''SELECT '' @ [39, 64256] @ str ''ormat'' @ [39]
   \<and> inject_format ascii_only (str ''SELECT '' @ [39, 64256] @ str ''ormat'' @ [39]) PRETTY
     = str ''SELECT '' @ [39, 64256] @ str ''ormat'' @ [39] @ str '' FORMAT Pretty''"
  by (simp add: inject_format_def str_def upper_def with_ligature_def ascii_only_def ascii_upper_def)


section \<open>Facts about the pool\<close>

lemma put_simps [simp]:
  "conns (put i c p) = (conns p)(i := c)"
  "members (put i c p) = members p"
  "next_conn (put i c p) = next_conn p"
  "pool_size (put i c p) = pool_size p"
  "pool_recycle (put i c p) = pool_recycle p"
  by (simp_all add: put_def)

lemma mark_in_use_simps [simp]:
  "members (mark_in_use i p) = members p"
  "next_conn (mark_in_use i p) = next_conn p"
  "pool_size (mark_in_use i p) = pool_size p"
  "pool_recycle (mark_in_use i p) = pool_recycle p"
  "in_use (conns (mark_in_use i p) j) = (j = i \<or> in_use (conns p j))"
  "last_used (conns (mark_in_use i p) j) = last_used (conns p j)"
  "client (conns (mark_in_use i p) j) = client (conns p j)"
  by (simp_all add: mark_in_use_def)

lemma release_simps [simp]:
  "members (release i p) = members p"
  "next_conn (release i p) = next_conn p"
  "pool_size (release i p) = pool_size p"
  "pool_recycle (release i p) = pool_recycle p"
  "in_use (conns (release i p) j) = (j \<noteq> i \<and> in_use (conns p j))"
  "last_used (conns (release i p) j) = last_used (conns p j)"
  "client (conns (release i p) j) = client (conns p j)"
  by (simp_all add: release_def)

lemma fold_release_simps [simp]:
  "members (fold release xs p) = members p"
  "next_conn (fold release xs p) = next_conn p"
  "pool_size (fold release xs p) = pool_size p"
  "pool_recycle (fold release xs p) = pool_recycle p"
  "in_use (conns (fold release xs p) j) = (j \<notin> set xs \<and> in_use (conns p j))"
  "last_used (conns (fold release xs p) j) = last_used (conns p j)"
  "client (conns (fold release xs p) j) = client (conns p j)"
  by (induction xs arbitrary: p; auto)+

lemma find_idle_None: "find (idle p) (members p) = None \<longleftrightarrow> list_all (\<lambda>i. in_use (conns p i)) (members p)"
  by (auto simp: find_None_iff list_all_iff idle_def)

lemma find_idle_Some: "find (idle p) (members p) = Some i \<Longrightarrow> i \<in> set (members p) \<and> \<not> in_use (conns p i)"
  by (auto simp: find_Some_iff idle_def)

subsection \<open>The polling loop\<close>

lemma wait_loop_members: "members (snd (wait_loop rel p)) = members p"
  by (induction rel arbitrary: p) (auto split: option.splits)

lemma wait_loop_static:
  "pool_size (snd (wait_loop rel p)) = pool_size p"
  "next_conn (snd (wait_loop rel p)) = next_conn p"
  "pool_recycle (snd (wait_loop rel p)) = pool_recycle p"
  by (induction rel arbitrary: p; auto split: option.splits)+

lemma wait_loop_last_used: "last_used (conns (snd (wait_loop rel p)) j) = last_used (conns p j)"
  by (induction rel arbitrary: p) (auto split: option.splits)

lemma wait_loop_returned:
  "wait_loop rel p = (Some i, p') \<Longrightarrow> i \<in> set (members p) \<and> in_use (conns p' i)"
proof (induction rel arbitrary: p)
  case Nil
  then show ?case by (auto split: option.splits dest: find_idle_Some)
next
  case (Cons a rel)
  show ?case
  proof (cases "find (idle p) (members p)")
    case None
    with Cons.prems have "wait_loop rel (fold release a p) = (Some i, p')" by simp
    from Cons.IH [OF this] show ?thesis by simp
  next
    case (Some j)
    with Cons.prems show ?thesis by (auto dest: find_idle_Some)
  qed
qed

lemma wait_loop_held:
  "wait_loop rel p = (r, p') \<Longrightarrow> in_use (conns p c) \<Longrightarrow> c \<notin> \<Union> (set ` set rel)
   \<Longrightarrow> r \<noteq> Some c \<and> in_use (conns p' c)"
  by (induction rel arbitrary: p) (auto split: option.splits dest: find_idle_Some)

lemma wait_loop_blocked:
  "list_all (\<lambda>i. in_use (conns p i)) (members p) \<Longrightarrow> wait_loop (replicate n []) p = (None, p)"
  by (induction n) (auto simp: find_idle_None [symmetric])


subsection \<open>The first loop\<close>

lemma disconnect_simps [simp]:
  "in_use (disconnect c) = in_use c"
  "last_used (disconnect c) = last_used c"
  "\<not> client (disconnect c)"
  by (simp_all add: disconnect_def)

lemma scan_static:
  "pool_size (snd (scan now p)) = pool_size p"
  "next_conn (snd (scan now p)) = next_conn p"
  "pool_recycle (snd (scan now p)) = pool_recycle p"
  by (simp_all add: scan_def split: option.splits)

lemma scan_length: "length (members (snd (scan now p))) \<le> length (members p)"
  by (simp add: scan_def length_remove1 split: option.splits)


lemma scan_last_used: "last_used (conns (snd (scan now p)) j) = last_used (conns p j)"
  by (simp add: scan_def split: option.splits)

lemma scan_returned:
  "scan now p = (Some i, p') \<Longrightarrow>
     i \<in> set (members p) \<and> \<not> in_use (conns p i) \<and> p' = mark_in_use i p
     \<and> \<not> now - last_used (conns p i) > real_of_int (pool_recycle p)"
  by (auto simp: scan_def split: option.splits if_splits dest: find_idle_Some)

lemma scan_held:
  "in_use (conns p c) \<Longrightarrow> fst (scan now p) \<noteq> Some c \<and> in_use (conns (snd (scan now p)) c)"
  by (auto simp: scan_def split: option.splits dest: find_idle_Some)

subsection \<open>Creating a connection\<close>

lemma create_connection_cases:
  "create_connection probe p =
     (case probe of
        None \<Rightarrow> (Inr (next_conn p),
                  (put (next_conn p) (new_connection\<lparr>client := True\<rparr>) p)\<lparr>next_conn := Suc (next_conn p)\<rparr>)
      | Some e \<Rightarrow> (Inl e,
                  (put (next_conn p) (new_connection\<lparr>client := False\<rparr>) p)\<lparr>next_conn := Suc (next_conn p)\<rparr>))"
  by (simp add: create_connection_def connect_def Let_def split: option.splits)

subsection \<open>\<open>get_connection\<close>\<close>

lemma get_connection_length:
  "length (members (snd (get_connection probe rel now p)))
     \<le> max (length (members p)) (nat (pool_size p))"
proof -
  obtain r p1 where sc: "scan now p = (r, p1)" by (cases "scan now p")
  have len: "length (members p1) \<le> length (members p)" and sz: "pool_size p1 = pool_size p"
    using scan_length [of now p] scan_static(1) [of now p] sc by simp_all
  show ?thesis
  proof (cases r)
    case (Some i)
    with sc len show ?thesis by (simp add: get_connection_def)
  next
    case None
    show ?thesis
    proof (cases "int (length (members p1)) < pool_size p1")
      case True
      with sc None sz show ?thesis
        by (cases probe) (auto simp: get_connection_def create_connection_cases)
    next
      case False
      with sc None len show ?thesis
        using wait_loop_members [of rel p1]
        by (auto simp: get_connection_def split: prod.splits option.splits)
    qed
  qed
qed

lemma get_connection_returned:
  assumes "get_connection probe rel now p = (Some (Inr c), p')"
  shows "in_use (conns p' c) \<and> c \<in> set (members p')"
proof -
  obtain r p1 where sc: "scan now p = (r, p1)" by (cases "scan now p")
  show ?thesis
  proof (cases r)
    case (Some i)
    with sc assms scan_returned [of now p i p1] show ?thesis
      by (auto simp: get_connection_def)
  next
    case None
    show ?thesis
    proof (cases "int (length (members p1)) < pool_size p1")
      case True
      with sc None assms show ?thesis
        by (cases probe) (auto simp: get_connection_def create_connection_cases)
    next
      case False
      with sc None assms obtain "wait_loop rel p1 = (Some c, p')"
        by (auto simp: get_connection_def split: prod.splits option.splits)
      then show ?thesis
        using wait_loop_returned [of rel p1 c p'] wait_loop_members [of rel p1] by simp
    qed
  qed
qed

lemma get_connection_held:
  assumes "in_use (conns p c)" "c < next_conn p" "c \<notin> \<Union> (set ` set rel)"
  shows "fst (get_connection probe rel now p) \<noteq> Some (Inr c)
         \<and> in_use (conns (snd (get_connection probe rel now p)) c)"
proof -
  obtain r p1 where sc: "scan now p = (r, p1)" by (cases "scan now p")
  have held1: "r \<noteq> Some c" "in_use (conns p1 c)" and nc: "next_conn p1 = next_conn p"
    using scan_held [OF assms(1), of now] scan_static(2) [of now p] sc by simp_all
  show ?thesis
  proof (cases r)
    case (Some i)
    with sc held1 show ?thesis by (simp add: get_connection_def)
  next
    case None
    show ?thesis
    proof (cases "int (length (members p1)) < pool_size p1")
      case True
      with sc None held1 nc assms(2) show ?thesis
        by (cases probe) (auto simp: get_connection_def create_connection_cases)
    next
      case False
      obtain w p2 where wl: "wait_loop rel p1 = (w, p2)" by (cases "wait_loop rel p1")
      from wait_loop_held [OF wl held1(2) assms(3)] sc None False wl show ?thesis
        by (auto simp: get_connection_def split: option.splits)
    qed
  qed
qed

lemma get_connection_last_used:
  assumes "j < next_conn p"
  shows "last_used (conns (snd (get_connection probe rel now p)) j) = last_used (conns p j)"
proof -
  obtain r p1 where sc: "scan now p = (r, p1)" by (cases "scan now p")
  have lu: "last_used (conns p1 j) = last_used (conns p j)" and nc: "next_conn p1 = next_conn p"
    using scan_last_used [of now p j] scan_static(2) [of now p] sc by simp_all
  show ?thesis
  proof (cases r)
    case (Some i)
    with sc lu show ?thesis by (simp add: get_connection_def)
  next
    case None
    show ?thesis
    proof (cases "int (length (members p1)) < pool_size p1")
      case True
      with sc None lu nc assms show ?thesis
        by (cases probe) (auto simp: get_connection_def create_connection_cases)
    next
      case False
      with sc None lu show ?thesis
        using wait_loop_last_used [of rel p1 j]
        by (auto simp: get_connection_def split: prod.splits option.splits)
    qed
  qed
qed

lemma get_connection_blocked:
  assumes "list_all (\<lambda>i. in_use (conns p i)) (members p)" "pool_size p \<le> int (length (members p))"
  shows "get_connection probe (replicate n []) now p = (None, p)"
proof -
  have "scan now p = (None, p)"
    using assms(1) by (simp add: scan_def find_idle_None [symmetric])
  then show ?thesis
    using assms wait_loop_blocked [of p n] by (simp add: get_connection_def)
qed

lemma get_connection_static:
  "pool_size (snd (get_connection probe rel now p)) = pool_size p"
  "pool_recycle (snd (get_connection probe rel now p)) = pool_recycle p"
proof -
  obtain r p1 where sc: "scan now p = (r, p1)" by (cases "scan now p")
  have st: "pool_size p1 = pool_size p" "pool_recycle p1 = pool_recycle p"
    using scan_static [of now p] sc by simp_all
  obtain w p2 where wl: "wait_loop rel p1 = (w, p2)" by (cases "wait_loop rel p1")
  have st2: "pool_size p2 = pool_size p1" "pool_recycle p2 = pool_recycle p1"
    using wait_loop_static [of rel p1] wl by simp_all
  show "pool_size (snd (get_connection probe rel now p)) = pool_size p"
    using sc st wl st2
    by (cases probe) (auto simp: get_connection_def create_connection_cases split: option.splits)
  show "pool_recycle (snd (get_connection probe rel now p)) = pool_recycle p"
    using sc st wl st2
    by (cases probe) (auto simp: get_connection_def create_connection_cases split: option.splits)
qed

lemma find_only:
  "c \<in> set xs \<Longrightarrow> (\<And>x. x \<in> set xs \<Longrightarrow> P x \<longleftrightarrow> x = c) \<Longrightarrow> find P xs = Some c"
  by (induction xs) auto

lemma wait_loop_released:
  assumes "list_all (\<lambda>i. in_use (conns p i)) (members p)" "c \<in> set (members p)"
  shows "fst (wait_loop (replicate k [] @ [c] # later) p) = Some c"
proof (induction k)
  case 0
  have none: "find (idle p) (members p) = None"
    using assms(1) by (simp add: find_idle_None)
  have "find (idle (release c p)) (members p) = Some c"
    using assms by (intro find_only) (auto simp: idle_def list_all_iff)
  then have "fst (wait_loop later (release c p)) = Some c"
    by (cases later) simp_all
  with none show ?case by simp
next
  case (Suc k)
  have "find (idle p) (members p) = None"
    using assms(1) by (simp add: find_idle_None)
  with Suc show ?case by simp
qed

lemma get_connection_released:
  assumes "list_all (\<lambda>i. in_use (conns p i)) (members p)" "pool_size p \<le> int (length (members p))"
    "c \<in> set (members p)"
  shows "fst (get_connection probe (replicate k [] @ [c] # later) now p) = Some (Inr c)"
proof -
  have "scan now p = (None, p)"
    using assms(1) by (simp add: scan_def find_idle_None [symmetric])
  then show ?thesis
    using assms(2) wait_loop_released [OF assms(1) assms(3), of k later]
    by (auto simp: get_connection_def split: prod.splits option.splits)
qed

lemma get_connection_fresh:
  assumes "list_all (\<lambda>i. in_use (conns p i)) (members p)" "int (length (members p)) < pool_size p"
  shows "get_connection None rel now p =
           (Some (Inr (next_conn p)),
            (mark_in_use (next_conn p)
               ((put (next_conn p) (new_connection\<lparr>client := True\<rparr>) p)\<lparr>next_conn := Suc (next_conn p)\<rparr>))
              \<lparr>members := members p @ [next_conn p]\<rparr>)"
proof -
  have "scan now p = (None, p)"
    using assms(1) by (simp add: scan_def find_idle_None [symmetric])
  then show ?thesis
    using assms(2) by (simp add: get_connection_def create_connection_cases)
qed

lemma filled_step:
  assumes "filled k p" "int k < pool_size p"
  shows "fst (get_connection None rel now p) = Some (Inr k)"
    and "filled (Suc k) (snd (get_connection None rel now p))"
    and "pool_size (snd (get_connection None rel now p)) = pool_size p"
proof -
  from assms have busy: "list_all (\<lambda>i. in_use (conns p i)) (members p)"
    and room: "int (length (members p)) < pool_size p" and nc: "next_conn p = k"
    and mem: "members p = [0..<k]"
    by (auto simp: filled_def)
  note eq = get_connection_fresh [OF busy room, of rel now]
  show "fst (get_connection None rel now p) = Some (Inr k)"
    using eq nc by simp
  show "filled (Suc k) (snd (get_connection None rel now p))"
    using eq nc mem busy by (auto simp: filled_def list_all_iff mark_in_use_def)
  show "pool_size (snd (get_connection None rel now p)) = pool_size p"
    using eq by simp
qed

lemma acquisitions_filled:
  assumes "filled k p" "int (k + length ts) \<le> pool_size p"
  shows "fst (acquisitions ts p) = map (\<lambda>i. Some (Inr i)) [k..<k + length ts]
         \<and> filled (k + length ts) (snd (acquisitions ts p))
         \<and> pool_size (snd (acquisitions ts p)) = pool_size p"
  using assms
proof (induction ts arbitrary: k p)
  case Nil
  then show ?case by simp
next
  case (Cons t ts)
  obtain r p1 where g: "get_connection None [] t p = (r, p1)"
    by (cases "get_connection None [] t p")
  from Cons.prems have room: "int k < pool_size p" by simp
  from filled_step [OF Cons.prems(1) room, of "[]" t] g
  have r: "r = Some (Inr k)" and f1: "filled (Suc k) p1" and sz: "pool_size p1 = pool_size p"
    by simp_all
  from Cons.prems sz have "int (Suc k + length ts) \<le> pool_size p1" by simp
  note ih = Cons.IH [OF f1 this]
  obtain rs p2 where a: "acquisitions ts p1 = (rs, p2)"
    by (cases "acquisitions ts p1")
  have list: "[k..<k + length (t # ts)] = k # [Suc k..<Suc k + length ts]"
    using upt_conv_Cons [of k "Suc (k + length ts)"] by (simp del: upt_Suc)
  from ih a have "rs = map (\<lambda>i. Some (Inr i)) [Suc k..<Suc k + length ts]"
    and "filled (Suc k + length ts) p2" and "pool_size p2 = pool_size p1"
    by simp_all
  with g r sz a list show ?case by (simp del: upt_Suc)
qed

lemma acquisitions_length:
  "length (members (snd (acquisitions ts p))) \<le> max (length (members p)) (nat (pool_size p))"
proof (induction ts arbitrary: p)
  case Nil
  then show ?case by simp
next
  case (Cons t ts)
  obtain r p1 where g: "get_connection None [] t p = (r, p1)"
    by (cases "get_connection None [] t p")
  have sz: "pool_size p1 = pool_size p"
    using get_connection_static(1) [of None "[]" t p] g by simp
  from get_connection_length [of None "[]" t p] g
  have "length (members p1) \<le> max (length (members p)) (nat (pool_size p))" by simp
  with Cons.IH [of p1] sz g show ?case by (auto split: prod.splits)
qed

lemma scan_valid: "valid_pool p \<Longrightarrow> valid_pool (snd (scan now p))"
proof -
  assume v: "valid_pool p"
  have "set (remove1 i (members p)) \<subseteq> set (members p)" for i
    by (rule set_remove1_subset)
  with v show ?thesis
    by (auto simp: valid_pool_def list_all_iff scan_def split: option.splits)
qed

lemma wait_loop_valid: "valid_pool p \<Longrightarrow> valid_pool (snd (wait_loop rel p))"
  using wait_loop_members [of rel p] wait_loop_static(2) [of rel p]
  by (simp add: valid_pool_def)

lemma get_connection_valid:
  assumes "valid_pool p"
  shows "valid_pool (snd (get_connection probe rel now p))"
proof -
  obtain r p1 where sc: "scan now p = (r, p1)" by (cases "scan now p")
  have v1: "valid_pool p1" using scan_valid [OF assms, of now] sc by simp
  obtain w p2 where wl: "wait_loop rel p1 = (w, p2)" by (cases "wait_loop rel p1")
  have v2: "valid_pool p2" using wait_loop_valid [OF v1, of rel] wl by simp
  have v3: "valid_pool ((mark_in_use (next_conn p1)
               ((put (next_conn p1) c p1)\<lparr>next_conn := Suc (next_conn p1)\<rparr>))
              \<lparr>members := members p1 @ [next_conn p1]\<rparr>)"
       "valid_pool ((put (next_conn p1) c p1)\<lparr>next_conn := Suc (next_conn p1)\<rparr>)" for c
    using v1 by (auto simp: valid_pool_def list_all_iff)
  show ?thesis
    using sc wl v1 v2 v3
    by (cases probe) (auto simp: get_connection_def create_connection_cases split: option.splits)
qed

lemma acquisitions_append:
  "acquisitions (xs @ ys) p =
     (case acquisitions xs p of
        (rs, p1) \<Rightarrow> (case acquisitions ys p1 of (rs', p2) \<Rightarrow> (rs @ rs', p2)))"
  by (induction xs arbitrary: p) (auto split: prod.splits)

lemma filled_new_pool: "filled 0 (new_pool n r)"
  by (simp add: filled_def new_pool_def)

section \<open>Facts about a connection\<close>

lemma execute_in_use:
  "in_use (snd (execute probe driver now req c)) =
     (if \<not> client c \<and> probe \<noteq> None then in_use c else False)"
  by (auto simp: execute_def connect_def Let_def split: option.splits sum.splits)

lemma execute_with_format_in_use:
  "in_use (snd (execute_with_format up probe driver now req f c)) =
     (if \<not> client c \<and> probe \<noteq> None then in_use c else False)"
  by (auto simp: execute_with_format_def connect_def Let_def split: option.splits sum.splits)

lemma execute_connect_failure:
  "\<not> client c \<Longrightarrow> execute (Some e) driver now req c = (Inl e, c\<lparr>client := False\<rparr>)"
  "\<not> client c \<Longrightarrow> execute_with_format up (Some e) driver now req f c = (Inl e, c\<lparr>client := False\<rparr>)"
  by (simp_all add: execute_def execute_with_format_def connect_def)

lemma resume_in_use:
  "resume now rows ending c = (st, g, c') \<Longrightarrow>
     (case st of Yield r \<Rightarrow> g \<noteq> Finished \<and> in_use c' = in_use c
      | StopIteration \<Rightarrow> g = Finished \<and> \<not> in_use c'
      | Raise e \<Rightarrow> g = Finished \<and> \<not> in_use c')"
  by (auto simp: resume_def split: list.splits option.splits)

lemma client_already: "client c \<Longrightarrow> c\<lparr>client := True\<rparr> = c"
  by (cases c) simp

lemma next_row_start:
  assumes "client c \<or> probe = None"
  shows "next_row probe driver_iter now req NotStarted c =
     (case driver_iter req of
        Inl e \<Rightarrow> (Raise e, Finished, c\<lparr>client := True, in_use := False\<rparr>)
      | Inr (rows, ending) \<Rightarrow> resume now rows ending (c\<lparr>client := True, in_use := True\<rparr>))"
proof (cases "client c")
  case True
  then show ?thesis
    by (simp add: next_row_def client_already split: sum.splits prod.splits)
next
  case False
  with assms have "probe = None" by simp
  with False show ?thesis
    by (simp add: next_row_def connect_def split: sum.splits prod.splits)
qed

lemma next_row_in_use:
  assumes "next_row probe driver_iter now req g c = (st, g', c')" "g \<noteq> Finished"
    "client c \<or> probe = None \<or> g \<noteq> NotStarted"
  shows "case st of Yield r \<Rightarrow> g' \<noteq> Finished \<and> in_use c' = (g = NotStarted \<or> in_use c)
         | StopIteration \<Rightarrow> g' = Finished \<and> \<not> in_use c'
         | Raise e \<Rightarrow> g' = Finished \<and> \<not> in_use c'"
proof (cases g)
  case NotStarted
  with assms have ok: "client c \<or> probe = None" by simp
  show ?thesis
  proof (cases "driver_iter req")
    case (Inl e)
    with assms(1) NotStarted show ?thesis
      by (auto simp: next_row_start [OF ok])
  next
    case (Inr it)
    obtain rows ending where it: "it = (rows, ending)" by (cases it)
    with Inr assms(1) NotStarted
    have "resume now rows ending (c\<lparr>client := True, in_use := True\<rparr>) = (st, g', c')"
      by (simp add: next_row_start [OF ok])
    from resume_in_use [OF this] NotStarted show ?thesis
      by (simp split: step.splits)
  qed
next
  case (Suspended rows ending)
  with assms resume_in_use [of now rows ending c st g' c'] show ?thesis
    by (auto simp: next_row_def split: step.splits)
next
  case Finished
  with assms show ?thesis by simp
qed

lemma close_generator_in_use:
  "close_generator g c = (g', c') \<Longrightarrow> g' = Finished \<and> in_use c' = (in_use c \<and> (g = NotStarted \<or> g = Finished))"
  by (cases g) (auto simp: close_generator_def)

text \<open>
  C5, as amended. Once the lazy connect is behind it (the connection is connected, or
  the connect succeeds), \<open>execute\<close> and \<open>execute_with_format\<close> leave \<open>in_use\<close> false, whether
  the driver returned or raised. When the connect fails the exception leaves the call
  before the \<open>try\<close> and the flag keeps its value. The generator of \<open>execute_iter\<close> holds
  the flag while it is suspended at a row and has cleared it when it ends: exhausted,
  failed or closed. Clearing the flag twice is clearing it once.
\<close>

theorem execute_clears_in_use:
  "(client c \<or> probe = None \<longrightarrow>
      \<not> in_use (snd (execute probe driver now req c))
      \<and> \<not> in_use (snd (execute_with_format up probe driver now req f c)))
   \<and> (\<not> client c \<longrightarrow>
      execute (Some e) driver now req c = (Inl e, c\<lparr>client := False\<rparr>)
      \<and> execute_with_format up (Some e) driver now req f c = (Inl e, c\<lparr>client := False\<rparr>))
   \<and> (next_row probe driver_iter now req g c = (st, g', c') \<and> g \<noteq> Finished
       \<and> (client c \<or> probe = None \<or> g \<noteq> NotStarted) \<longrightarrow>
        (case st of Yield r \<Rightarrow> g' \<noteq> Finished \<and> in_use c' = (g = NotStarted \<or> in_use c)
         | StopIteration \<Rightarrow> g' = Finished \<and> \<not> in_use c'
         | Raise e \<Rightarrow> g' = Finished \<and> \<not> in_use c'))
   \<and> \<not> in_use (snd (close_generator (Suspended rows ending) c))
   \<and> release i (release i p) = release i p
   \<and> \<not> in_use (conns (release i p) i)"
proof -
  have a: "client c \<or> probe = None \<Longrightarrow>
      \<not> in_use (snd (execute probe driver now req c))
      \<and> \<not> in_use (snd (execute_with_format up probe driver now req f c))"
    by (auto simp: execute_in_use execute_with_format_in_use)
  have b: "release i (release i p) = release i p"
    by (simp add: release_def put_def)
  have c: "\<not> in_use (snd (close_generator (Suspended rows ending) c))"
    by (simp add: close_generator_def)
  show ?thesis
    using a b c execute_connect_failure(1) [of c e driver now req]
      execute_connect_failure(2) [of c up e driver now req f]
      next_row_in_use [of probe driver_iter now req g c st g' c']
    by simp
qed


lemmas pool_eval =
  get_connection_def scan_def create_connection_def connect_def disconnect_def
  new_pool_def new_connection_def put_def mark_in_use_def release_def idle_def
  close_pool_def execute_def select_one_def

theorem execute_clears_in_use_witness:
  "\<not> in_use (snd (execute None (\<lambda>r. Inl (ClickHouseError ''boom'') :: error + result) 5 select_one
                     \<lparr>client = True, in_use = True, last_used = 0\<rparr>))
   \<and> fst (next_row None (\<lambda>r. Inr ([[VInt 1]], None)) 5 select_one NotStarted new_connection)
       = Yield [VInt 1]
   \<and> in_use (snd (snd (next_row None (\<lambda>r. Inr ([[VInt 1]], None)) 5 select_one NotStarted
                          new_connection)))
   \<and> next_row None (\<lambda>r. Inr ([[VInt 1]], None)) 6 select_one (Suspended [] None)
        \<lparr>client = True, in_use = True, last_used = 0\<rparr>
       = (StopIteration, Finished, \<lparr>client = True, in_use = False, last_used = 6\<rparr>)"
proof -
  have one: "next_row None (\<lambda>r. Inr ([[VInt 1]], None)) 5 select_one NotStarted new_connection
     = (Yield [VInt 1], Suspended [] None, \<lparr>client = True, in_use = True, last_used = 0\<rparr>)"
    by (simp add: next_row_def resume_def connect_def new_connection_def)
  have two: "next_row None (\<lambda>r. Inr ([[VInt 1]], None)) 6 select_one (Suspended [] None)
        \<lparr>client = True, in_use = True, last_used = 0\<rparr>
       = (StopIteration, Finished, \<lparr>client = True, in_use = False, last_used = 6\<rparr>)"
    by (simp add: next_row_def resume_def)
  show ?thesis
    using execute_clears_in_use [where c = "\<lparr>client = True, in_use = True, last_used = 0\<rparr>"
        and probe = None and driver = "\<lambda>r. Inl (ClickHouseError ''boom'') :: error + result"
        and now = 5 and req = select_one and f = PRETTY and e = IndexError
        and driver_iter = "\<lambda>r. Inr ([[VInt 1]], None)" and g = "Suspended [] None"
        and st = StopIteration and g' = Finished
        and c' = "\<lparr>client = True, in_use = False, last_used = 5\<rparr>"
        and rows = "[]" and ending = None and i = 0 and p = "new_pool 1 3600"]
      one two
    by simp
qed

text \<open>
  The claim C5 as stated fails: a connection checked out of the pool, disconnected by
  \<open>close\<close> while held, and then used for \<open>execute\<close> with a connect that fails, is still
  marked in use after \<open>execute\<close> has raised.
\<close>

theorem execute_clears_in_use_counterexample:
  "(let p1 = snd (get_connection None [] 1000 (new_pool 1 3600));
        p2 = close_pool p1;
        r = execute (Some (ClickHouseError ''connection refused''))
              (\<lambda>q. Inr (Rows [[VInt 1]])) 1001 select_one (conns p2 0)
    in fst (get_connection None [] 1000 (new_pool 1 3600)) = Some (Inr 0)
       \<and> fst r = Inl (ClickHouseError ''connection refused'')
       \<and> in_use (snd r))"
  by (simp add: pool_eval Let_def)

lemma execute_last_used:
  "last_used (snd (execute probe driver now req c)) =
     (case fst (execute probe driver now req c) of Inr r \<Rightarrow> now | Inl e \<Rightarrow> last_used c)"
  by (auto simp: execute_def connect_def Let_def split: option.splits sum.splits)

lemma execute_with_format_last_used:
  "last_used (snd (execute_with_format up probe driver now req f c)) =
     (case fst (execute_with_format up probe driver now req f c) of
        Inr r \<Rightarrow> now | Inl e \<Rightarrow> last_used c)"
  by (auto simp: execute_with_format_def connect_def Let_def split: option.splits sum.splits)

lemma resume_last_used:
  "resume now rows ending c = (st, g, c') \<Longrightarrow>
     last_used c' = (if st = StopIteration then now else last_used c)"
  by (auto simp: resume_def split: list.splits option.splits)

lemma next_row_last_used:
  assumes "next_row probe driver_iter now req g c = (st, g', c')"
  shows "last_used c' = (if st = StopIteration \<and> g \<noteq> Finished then now else last_used c)"
proof (cases g)
  case NotStarted
  show ?thesis
  proof (cases "client c \<or> probe = None")
    case True
    show ?thesis
    proof (cases "driver_iter req")
      case (Inl e)
      with assms NotStarted show ?thesis
        by (auto simp: next_row_start [OF True])
    next
      case (Inr it)
      obtain rows ending where it: "it = (rows, ending)" by (cases it)
      with Inr assms NotStarted
      have "resume now rows ending (c\<lparr>client := True, in_use := True\<rparr>) = (st, g', c')"
        by (simp add: next_row_start [OF True])
      from resume_last_used [OF this] NotStarted show ?thesis by simp
    qed
  next
    case False
    with assms NotStarted show ?thesis
      by (auto simp: next_row_def connect_def)
  qed
next
  case (Suspended rows ending)
  with assms resume_last_used [of now rows ending c st g' c'] show ?thesis
    by (simp add: next_row_def)
next
  case Finished
  with assms show ?thesis by (auto simp: next_row_def)
qed

text \<open>
  C10, as amended. \<open>last_used\<close> becomes the current time when an execution succeeds
  (for the generator: when the iteration is exhausted) and keeps its value when the
  execution fails. Neither \<open>get_connection\<close> nor the release, \<open>connect\<close>, \<open>disconnect\<close>,
  the closing of a generator or of the pool changes the \<open>last_used\<close> of an existing
  connection.
\<close>

theorem last_used_frame:
  "last_used (snd (execute probe driver now req c)) =
     (case fst (execute probe driver now req c) of Inr r \<Rightarrow> now | Inl e \<Rightarrow> last_used c)
   \<and> last_used (snd (execute_with_format up probe driver now req f c)) =
     (case fst (execute_with_format up probe driver now req f c) of
        Inr r \<Rightarrow> now | Inl e \<Rightarrow> last_used c)
   \<and> (next_row probe driver_iter now req g c = (st, g', c') \<longrightarrow>
        last_used c' = (if st = StopIteration \<and> g \<noteq> Finished then now else last_used c))
   \<and> last_used (snd (close_generator g c)) = last_used c
   \<and> last_used (snd (connect probe c)) = last_used c
   \<and> last_used (disconnect c) = last_used c
   \<and> (j < next_conn p \<longrightarrow>
        last_used (conns (snd (get_connection probe rel now p)) j) = last_used (conns p j))
   \<and> last_used (conns (release i p) j) = last_used (conns p j)
   \<and> last_used (conns (close_pool p) j) = last_used (conns p j)"
proof -
  have cg: "last_used (snd (close_generator g c)) = last_used c"
    by (cases g) (simp_all add: close_generator_def)
  have cn: "last_used (snd (connect probe c)) = last_used c"
    by (cases probe) (simp_all add: connect_def)
  have "last_used (conns (fold (\<lambda>i q. put i (disconnect (conns q i)) q) xs q) j)
          = last_used (conns q j)" for xs q
    by (induction xs arbitrary: q) simp_all
  then have cp: "last_used (conns (close_pool p) j) = last_used (conns p j)"
    by (simp add: close_pool_def)
  show ?thesis
    using execute_last_used [of probe driver now req c]
      execute_with_format_last_used [of up probe driver now req f c]
      next_row_last_used [of probe driver_iter now req g c st g' c']
      get_connection_last_used [of j p probe rel now] cg cn cp
    by simp
qed

theorem last_used_frame_witness:
  "last_used (snd (execute None (\<lambda>r. Inr (Rows [[VInt 1]])) 2000 select_one
        \<lparr>client = True, in_use = False, last_used = 1000\<rparr>)) = 2000
   \<and> (0::nat) < next_conn (snd (get_connection None [] 1000 (new_pool 1 3600)))
   \<and> last_used (conns (snd (get_connection None [] 1500
         (release 0 (snd (get_connection None [] 1000 (new_pool 1 3600)))))) 0) = 0"
proof -
  have ex: "fst (execute None (\<lambda>r. Inr (Rows [[VInt 1]])) 2000 select_one
        \<lparr>client = True, in_use = False, last_used = 1000\<rparr>) = Inr (Rows [[VInt 1]])"
    by (simp add: execute_def)
  have nc: "next_conn (release 0 (snd (get_connection None [] 1000 (new_pool 1 3600)))) = 1"
    and lu: "last_used (conns (release 0 (snd (get_connection None [] 1000 (new_pool 1 3600)))) 0) = 0"
    by (simp_all add: pool_eval)
  show ?thesis
    using last_used_frame [where probe = None and driver = "\<lambda>r. Inr (Rows [[VInt 1]])"
        and now = 2000 and req = select_one
        and c = "\<lparr>client = True, in_use = False, last_used = 1000\<rparr>"]
      last_used_frame [where j = 0 and probe = None and rel = "[]" and now = 1500
        and p = "release 0 (snd (get_connection None [] 1000 (new_pool 1 3600)))"]
      ex nc lu
    by (simp add: pool_eval)
qed

text \<open>
  The claim C10 as stated fails: an execution that raises leaves \<open>last_used\<close> at 1000,
  not at the time 2000 of the attempt.
\<close>

theorem last_used_frame_counterexample:
  "execute None (\<lambda>r. Inl (ClickHouseError ''Code: 62. Syntax error'') :: error + result) 2000
     select_one \<lparr>client = True, in_use = False, last_used = 1000\<rparr>
   = (Inl (ClickHouseError ''Code: 62. Syntax error''),
      \<lparr>client = True, in_use = False, last_used = 1000\<rparr>)"
  by (simp add: execute_def)


section \<open>Checkout and recycling\<close>

lemma get_connection_idle_member:
  assumes "list_all (\<lambda>i. in_use (conns p i)) (members p)" "c \<in> set (members p)"
    and "\<not> in_use c'" "\<not> now - last_used c' > real_of_int (pool_recycle p)"
  shows "fst (get_connection probe rel now (put c c' p)) = Some (Inr c)"
proof -
  have "find (idle (put c c' p)) (members (put c c' p)) = Some c"
    using assms(1-3) by (intro find_only) (auto simp: idle_def list_all_iff)
  then have "scan now (put c c' p) = (Some c, mark_in_use c (put c c' p))"
    using assms(4) by (simp add: scan_def)
  then show ?thesis by (simp add: get_connection_def)
qed

lemma wait_loop_idle_member:
  assumes "list_all (\<lambda>i. in_use (conns p i)) (members p)" "c \<in> set (members p)"
    and "\<not> in_use c'"
  shows "fst (wait_loop later (put c c' p)) = Some c"
proof -
  have "find (idle (put c c' p)) (members (put c c' p)) = Some c"
    using assms by (intro find_only) (auto simp: idle_def list_all_iff)
  then show ?thesis by (cases later) simp_all
qed

lemma execute_success:
  "driver req = Inr res \<Longrightarrow>
   execute None driver now req c = (Inr res, c\<lparr>client := True, in_use := False, last_used := now\<rparr>)"
  by (cases "client c") (simp_all add: execute_def connect_def client_already)

lemma execute_with_format_success:
  "driver (req\<lparr>query := inject_format up (query req) f, with_column_types := False\<rparr>) = Inr res \<Longrightarrow>
   execute_with_format up None driver now req f c
     = (Inr res, c\<lparr>client := True, in_use := False, last_used := now\<rparr>)"
  by (cases "client c") (simp_all add: execute_with_format_def connect_def client_already)

lemma get_connection_after_execute:
  assumes "list_all (\<lambda>i. in_use (conns p i)) (members p)" "c \<in> set (members p)"
    and "driver req = Inr res" "\<not> t2 - t1 > real_of_int (pool_recycle p)"
  shows "fst (get_connection probe rel t2 (put c (snd (execute None driver t1 req (conns p c))) p))
           = Some (Inr c)"
  using get_connection_idle_member [OF assms(1,2), of
      "(conns p c)\<lparr>client := True, in_use := False, last_used := t1\<rparr>" t2 probe rel]
    assms(3,4)
  by (simp add: execute_success [of driver req res])

text \<open>
  C1. What the code does: a connection returned by \<open>get_connection\<close> has \<open>in_use\<close> true at
  checkout, but the flag does not last until the release. The \<open>finally\<close> clause of
  \<open>execute\<close> and \<open>execute_with_format\<close>, and the generator of \<open>execute_iter\<close> when it
  ends, clear it; when every member was in use and the connection is not stale, the
  next \<open>get_connection\<close> returns the very connection that is still held.
\<close>

theorem checkout_not_exclusive:
  "get_connection probe rel now p = (Some (Inr c), p1)
   \<and> list_all (\<lambda>i. in_use (conns p1 i)) (members p1)
   \<and> \<not> t2 - t1 > real_of_int (pool_recycle p1)
   \<longrightarrow> in_use (conns p1 c)
     \<and> (driver req = Inr res \<longrightarrow>
          \<not> in_use (snd (execute None driver t1 req (conns p1 c)))
          \<and> fst (get_connection probe2 rel2 t2
                   (put c (snd (execute None driver t1 req (conns p1 c))) p1)) = Some (Inr c))
     \<and> (driver (req\<lparr>query := inject_format up (query req) f, with_column_types := False\<rparr>)
           = Inr res \<longrightarrow>
          fst (get_connection probe2 rel2 t2
                 (put c (snd (execute_with_format up None driver t1 req f (conns p1 c))) p1))
            = Some (Inr c))
     \<and> fst (get_connection probe2 rel2 t2
              (put c (snd (snd (next_row None driver_iter t1 req (Suspended [] None) (conns p1 c))))
                 p1)) = Some (Inr c)"
proof -
  have main: "in_use (conns p1 c)
     \<and> (driver req = Inr res \<longrightarrow>
          \<not> in_use (snd (execute None driver t1 req (conns p1 c)))
          \<and> fst (get_connection probe2 rel2 t2
                   (put c (snd (execute None driver t1 req (conns p1 c))) p1)) = Some (Inr c))
     \<and> (driver (req\<lparr>query := inject_format up (query req) f, with_column_types := False\<rparr>)
           = Inr res \<longrightarrow>
          fst (get_connection probe2 rel2 t2
                 (put c (snd (execute_with_format up None driver t1 req f (conns p1 c))) p1))
            = Some (Inr c))
     \<and> fst (get_connection probe2 rel2 t2
              (put c (snd (snd (next_row None driver_iter t1 req (Suspended [] None) (conns p1 c))))
                 p1)) = Some (Inr c)"
    if g: "get_connection probe rel now p = (Some (Inr c), p1)"
      and busy: "list_all (\<lambda>i. in_use (conns p1 i)) (members p1)"
      and fresh: "\<not> t2 - t1 > real_of_int (pool_recycle p1)"
  proof -
    from get_connection_returned [OF g] have held: "in_use (conns p1 c)"
      and mem: "c \<in> set (members p1)" by simp_all
    note idle = get_connection_idle_member [OF busy mem, where now = t2 and probe = probe2
        and rel = rel2]
    have a: "fst (get_connection probe2 rel2 t2
                   (put c (snd (execute None driver t1 req (conns p1 c))) p1)) = Some (Inr c)"
      if "driver req = Inr res"
      using get_connection_after_execute [of p1 c driver req res t2 t1 probe2 rel2]
        busy mem that fresh by simp
    have b: "fst (get_connection probe2 rel2 t2
                 (put c (snd (execute_with_format up None driver t1 req f (conns p1 c))) p1))
            = Some (Inr c)"
      if "driver (req\<lparr>query := inject_format up (query req) f, with_column_types := False\<rparr>)
           = Inr res"
      using idle [of "(conns p1 c)\<lparr>client := True, in_use := False, last_used := t1\<rparr>"] fresh that
      by (simp add: execute_with_format_success [where driver = driver and req = req and up = up
            and f = f and res = res])
    have c: "fst (get_connection probe2 rel2 t2
              (put c (snd (snd (next_row None driver_iter t1 req (Suspended [] None) (conns p1 c))))
                 p1)) = Some (Inr c)"
      using idle [of "(conns p1 c)\<lparr>last_used := t1, in_use := False\<rparr>"] fresh
      by (simp add: next_row_def resume_def)
    show ?thesis
      using held a b c by (simp add: execute_in_use)
  qed
  then show ?thesis by blast
qed

theorem checkout_not_exclusive_witness:
  "(let p1 = snd (get_connection None [] 1000 (new_pool 1 3600));
        r = execute None (\<lambda>q. Inr (Rows [[VInt 1]])) 1001 select_one (conns p1 0);
        p2 = put 0 (snd r) p1
    in get_connection None [] 1000 (new_pool 1 3600) = (Some (Inr 0), p1)
       \<and> in_use (conns p1 0)
       \<and> fst r = Inr (Rows [[VInt 1]])
       \<and> \<not> in_use (conns p2 0)
       \<and> fst (get_connection None [] 1002 p2) = Some (Inr 0))"
proof -
  let ?first = "get_connection None [] 1000 (new_pool 1 3600)"
  have g: "?first = (Some (Inr 0), snd ?first)"
    and busy: "list_all (\<lambda>i. in_use (conns (snd ?first) i)) (members (snd ?first))"
    and fresh: "\<not> 1002 - 1001 > real_of_int (pool_recycle (snd ?first))"
    by (simp_all add: pool_eval)
  have ok: "(\<lambda>q. Inr (Rows [[VInt 1]])) select_one = (Inr (Rows [[VInt 1]]) :: error + result)"
    by simp
  have r: "fst (execute None (\<lambda>q. Inr (Rows [[VInt 1]])) 1001 select_one (conns (snd ?first) 0))
      = Inr (Rows [[VInt 1]])"
    by (simp add: execute_success)
  from checkout_not_exclusive [where probe = None and rel = "[]" and now = 1000
      and p = "new_pool 1 3600" and c = 0 and ?p1.0 = "snd ?first" and ?t1.0 = 1001
      and ?t2.0 = 1002 and driver = "\<lambda>q. Inr (Rows [[VInt 1]])" and req = select_one
      and res = "Rows [[VInt 1]]" and ?probe2.0 = None and ?rel2.0 = "[]"
      and up = ascii_only and f = JSON and driver_iter = "\<lambda>q. Inr ([], None)"]
    g busy fresh ok
  have "in_use (conns (snd ?first) 0)
      \<and> \<not> in_use (snd (execute None (\<lambda>q. Inr (Rows [[VInt 1]])) 1001 select_one
                          (conns (snd ?first) 0)))
      \<and> fst (get_connection None [] 1002
               (put 0 (snd (execute None (\<lambda>q. Inr (Rows [[VInt 1]])) 1001 select_one
                              (conns (snd ?first) 0))) (snd ?first))) = Some (Inr 0)"
    by blast
  with g r show ?thesis by (simp add: Let_def)
qed

lemma acquisitions_recycle: "pool_recycle (snd (acquisitions ts p)) = pool_recycle p"
proof (induction ts arbitrary: p)
  case Nil
  then show ?case by simp
next
  case (Cons t ts)
  obtain r p1 where g: "get_connection None [] t p = (r, p1)"
    by (cases "get_connection None [] t p")
  have "pool_recycle p1 = pool_recycle p"
    using get_connection_static(2) [of None "[]" t p] g by simp
  with Cons.IH [of p1] g show ?case by (auto split: prod.splits)
qed

text \<open>
  C2. What the code does: a call of \<open>get_connection\<close> never makes the member list longer
  than \<open>max (length before) pool_size\<close>; from an empty pool of size \<open>n\<close>, acquisitions
  keep at most \<open>n\<close> members and the first \<open>n\<close> each return a new connection. The next one
  polls for as long as nothing happens between its polls (it is the \<open>None\<close> of the
  sequence) and returns a connection once one is released. But it also returns with no
  release at all, once the holder of a connection has run a query on it: the call made
  after the query finds the held connection in its first loop, and a call that is
  already polling finds it at its next poll, whether the query succeeded or failed.
\<close>

theorem pool_capacity:
  "length (members (snd (get_connection probe rel now p)))
     \<le> max (length (members p)) (nat (pool_size p))
   \<and> length (members (snd (acquisitions ts (new_pool (int n) recycle)))) \<le> n
   \<and> (length ts \<le> n \<longrightarrow>
        fst (acquisitions ts (new_pool (int n) recycle)) = map (\<lambda>i. Some (Inr i)) [0..<length ts]
        \<and> members (snd (acquisitions ts (new_pool (int n) recycle))) = [0..<length ts])
   \<and> (length ts = n \<longrightarrow>
        get_connection probe (replicate k []) now (snd (acquisitions ts (new_pool (int n) recycle)))
          = (None, snd (acquisitions ts (new_pool (int n) recycle)))
        \<and> fst (acquisitions (ts @ [t]) (new_pool (int n) recycle))
          = map (\<lambda>i. Some (Inr i)) [0..<n] @ [None])
   \<and> (length ts = n \<and> c < n \<longrightarrow>
        fst (get_connection probe (replicate k [] @ [c] # later) now
               (snd (acquisitions ts (new_pool (int n) recycle)))) = Some (Inr c))
   \<and> (length ts = n \<and> c < n \<and> driver req = Inr res \<and> \<not> t2 - t1 > real_of_int recycle \<longrightarrow>
        fst (get_connection probe rel t2
               (put c (snd (execute None driver t1 req
                              (conns (snd (acquisitions ts (new_pool (int n) recycle))) c)))
                  (snd (acquisitions ts (new_pool (int n) recycle))))) = Some (Inr c))
   \<and> (length ts = n \<and> c < n \<longrightarrow>
        fst (wait_loop later
               (put c (snd (execute None driver t1 req
                              (conns (snd (acquisitions ts (new_pool (int n) recycle))) c)))
                  (snd (acquisitions ts (new_pool (int n) recycle))))) = Some c)"
proof -
  let ?init = "new_pool (int n) recycle"
  let ?after = "snd (acquisitions ts ?init)"
  have sz0: "pool_size ?init = int n" and m0: "members ?init = []"
    and rc: "pool_recycle ?after = recycle"
    by (simp_all add: new_pool_def acquisitions_recycle)
  have bound: "length (members ?after) \<le> n"
    using acquisitions_length [of ts ?init] sz0 m0 by simp
  have seq: "fst (acquisitions ts ?init) = map (\<lambda>i. Some (Inr i)) [0..<length ts]
      \<and> filled (length ts) ?after \<and> pool_size ?after = int n" if "length ts \<le> n"
    using acquisitions_filled [OF filled_new_pool, of ts "int n" recycle] that sz0 by simp
  have full: "list_all (\<lambda>i. in_use (conns ?after i)) (members ?after)"
      "pool_size ?after \<le> int (length (members ?after))" "members ?after = [0..<n]" if "length ts = n"
    using seq that by (auto simp: filled_def)
  have blocked: "get_connection probe (replicate k []) now ?after = (None, ?after)" if "length ts = n"
    for probe k now
    using get_connection_blocked [OF full(1,2) [OF that]] .
  have last: "fst (acquisitions (ts @ [t]) ?init) = map (\<lambda>i. Some (Inr i)) [0..<n] @ [None]"
    if "length ts = n"
    using seq that blocked [OF that, of None 0 t]
    by (auto simp: acquisitions_append split: prod.splits)
  have freed: "fst (get_connection probe (replicate k [] @ [c] # later) now ?after) = Some (Inr c)"
    if "length ts = n" "c < n"
    using get_connection_released [OF full(1,2) [OF that(1)], of c probe k later now]
      full(3) [OF that(1)] that(2) by simp
  have used: "fst (get_connection probe rel t2
               (put c (snd (execute None driver t1 req (conns ?after c))) ?after)) = Some (Inr c)"
    if "length ts = n" "c < n" "driver req = Inr res" "\<not> t2 - t1 > real_of_int recycle"
    using get_connection_after_execute [of ?after c driver req res t2 t1 probe rel]
      full(1,3) [OF that(1)] that(2,3,4) rc by simp
  have polled: "fst (wait_loop later
               (put c (snd (execute None driver t1 req (conns ?after c))) ?after)) = Some c"
    if "length ts = n" "c < n"
    using wait_loop_idle_member [of ?after c "snd (execute None driver t1 req (conns ?after c))" later]
      full(1,3) [OF that(1)] that(2) by (simp add: execute_in_use)
  show ?thesis
    using get_connection_length [of probe rel now p] bound seq blocked last freed used polled
    by (simp add: filled_def)
qed

theorem pool_capacity_witness:
  "fst (acquisitions [1000, 1001, 1002] (new_pool 2 3600)) = [Some (Inr 0), Some (Inr 1), None]
   \<and> members (snd (acquisitions [1000, 1001] (new_pool 2 3600))) = [0, 1]
   \<and> fst (get_connection None [[], [1]] 1002 (snd (acquisitions [1000, 1001] (new_pool 2 3600))))
       = Some (Inr 1)
   \<and> fst (get_connection None [] 1003
            (put 1 (snd (execute None (\<lambda>q. Inr (Rows [[VInt 1]])) 1002 select_one
                           (conns (snd (acquisitions [1000, 1001] (new_pool 2 3600))) 1)))
               (snd (acquisitions [1000, 1001] (new_pool 2 3600))))) = Some (Inr 1)
   \<and> fst (wait_loop []
            (put 1 (snd (execute None (\<lambda>q. Inr (Rows [[VInt 1]])) 1002 select_one
                           (conns (snd (acquisitions [1000, 1001] (new_pool 2 3600))) 1)))
               (snd (acquisitions [1000, 1001] (new_pool 2 3600))))) = Some 1"
proof -
  have len: "length [1000, 1001 :: real] = 2" "(1::nat) < 2" by simp_all
  have upt: "[0..<2] = [0, Suc 0]" by (simp add: upt_rec)
  have fresh: "\<not> (1003::real) - 1002 > real_of_int 3600" by simp
  show ?thesis
    using pool_capacity [where probe = None and rel = "[]" and now = 1002
        and p = "new_pool 2 3600" and ts = "[1000, 1001]" and n = 2 and recycle = 3600
        and k = 1 and t = 1002 and c = 1 and later = "[]"
        and driver = "\<lambda>q. Inr (Rows [[VInt 1]])" and req = select_one
        and res = "Rows [[VInt 1]]" and ?t1.0 = 1002 and ?t2.0 = 1003]
      len upt fresh
    by (simp del: wait_loop.simps)
qed

text \<open>
  C3, as amended. A connection returned by the first loop of \<open>get_connection\<close> is a
  member that was idle and is not stale. When the first idle member is stale it is
  disconnected and removed, the loop is left without looking at the members after it,
  and the call creates a new connection when the membership was within \<open>pool_size\<close>.
\<close>

theorem scan_skips_stale:
  "(scan now p = (Some i, p') \<longrightarrow>
      i \<in> set (members p) \<and> idle p i
      \<and> \<not> now - last_used (conns p i) > real_of_int (pool_recycle p)
      \<and> get_connection probe rel now p = (Some (Inr i), mark_in_use i p))
   \<and> (find (idle p) (members p) = Some j
       \<and> now - last_used (conns p j) > real_of_int (pool_recycle p) \<longrightarrow>
        scan now p = (None, (put j (disconnect (conns p j)) p)\<lparr>members := remove1 j (members p)\<rparr>)
        \<and> \<not> client (conns (snd (scan now p)) j)
        \<and> (distinct (members p) \<longrightarrow> j \<notin> set (members (snd (scan now p))))
        \<and> (int (length (members p)) \<le> pool_size p \<longrightarrow>
             fst (get_connection probe rel now p)
               = (case probe of None \<Rightarrow> Some (Inr (next_conn p)) | Some e \<Rightarrow> Some (Inl e))))"
proof -
  have a: "i \<in> set (members p) \<and> idle p i
      \<and> \<not> now - last_used (conns p i) > real_of_int (pool_recycle p)
      \<and> get_connection probe rel now p = (Some (Inr i), mark_in_use i p)"
    if "scan now p = (Some i, p')"
    using scan_returned [OF that] that by (simp add: get_connection_def idle_def)
  have b: "scan now p = (None, (put j (disconnect (conns p j)) p)\<lparr>members := remove1 j (members p)\<rparr>)
        \<and> \<not> client (conns (snd (scan now p)) j)
        \<and> (distinct (members p) \<longrightarrow> j \<notin> set (members (snd (scan now p))))
        \<and> (int (length (members p)) \<le> pool_size p \<longrightarrow>
             fst (get_connection probe rel now p)
               = (case probe of None \<Rightarrow> Some (Inr (next_conn p)) | Some e \<Rightarrow> Some (Inl e)))"
    if f: "find (idle p) (members p) = Some j"
      and st: "now - last_used (conns p j) > real_of_int (pool_recycle p)"
  proof -
    have sc: "scan now p = (None, (put j (disconnect (conns p j)) p)\<lparr>members := remove1 j (members p)\<rparr>)"
      using f st by (simp add: scan_def)
    have mem: "j \<in> set (members p)" using find_idle_Some [OF f] by simp
    then have "length (members p) > 0" by (cases "members p") auto
    with mem have len: "int (length (remove1 j (members p))) < int (length (members p))"
      by (simp add: length_remove1)
    have "fst (get_connection probe rel now p)
               = (case probe of None \<Rightarrow> Some (Inr (next_conn p)) | Some e \<Rightarrow> Some (Inl e))"
      if "int (length (members p)) \<le> pool_size p"
      using sc len that
      by (cases probe) (simp_all add: get_connection_def create_connection_cases)
    with sc show ?thesis by simp
  qed
  show ?thesis using a b by blast
qed


lemma used_once_eq:
  "used_once = \<lparr>conns = (\<lambda>i. new_connection)(0 := \<lparr>client = True, in_use = False, last_used = 1000\<rparr>),
                 next_conn = 1, members = [0], pool_size = 1, pool_recycle = 3600\<rparr>"
  by (simp add: used_once_def pool_eval Let_def)

theorem scan_skips_stale_witness:
  "scan 1001 used_once = (Some 0, mark_in_use 0 used_once)
   \<and> \<not> 1001 - last_used (conns used_once 0) > real_of_int (pool_recycle used_once)
   \<and> find (idle used_once) (members used_once) = Some 0
   \<and> 9000 - last_used (conns used_once 0) > real_of_int (pool_recycle used_once)
   \<and> fst (get_connection None [] 9000 used_once) = Some (Inr 1)
   \<and> \<not> client (conns (snd (scan 9000 used_once)) 0)
   \<and> members (snd (scan 9000 used_once)) = []"
proof -
  have sc: "scan 1001 used_once = (Some 0, mark_in_use 0 used_once)"
    by (simp add: used_once_eq scan_def idle_def)
  have f: "find (idle used_once) (members used_once) = Some 0"
    and st: "9000 - last_used (conns used_once 0) > real_of_int (pool_recycle used_once)"
    and cap: "int (length (members used_once)) \<le> pool_size used_once"
    and nc: "next_conn used_once = 1" and d: "distinct (members used_once)"
    and m: "remove1 0 (members used_once) = []"
    by (simp_all add: used_once_eq idle_def)
  show ?thesis
    using scan_skips_stale [where now = 1001 and p = used_once and i = 0
        and p' = "mark_in_use 0 used_once" and j = 0 and probe = None and rel = "[]"]
      scan_skips_stale [where now = 9000 and p = used_once and i = 0
        and p' = "mark_in_use 0 used_once" and j = 0 and probe = None and rel = "[]"]
      sc f st cap nc d m
    by simp
qed

text \<open>
  The claim C3 as stated fails twice. The polling loop returns a connection released
  during a sleep whatever its age: here one last used 8000 seconds before, with
  \<open>pool_recycle = 3600\<close>. And after the removal of a stale member the loop does not go on
  to the next candidate: the idle, fresh member 1 is passed over for a new connection 2.
\<close>

theorem scan_skips_stale_counterexample:
  "(let p3 = snd (get_connection None [] 1001 used_once);
        r = get_connection None [[0]] 9000 p3
    in in_use (conns p3 0) \<and> members p3 = [0]
       \<and> fst r = Some (Inr 0)
       \<and> 9000 - last_used (conns (snd r) 0) > real_of_int (pool_recycle (snd r)))
   \<and> (let q1 = snd (get_connection None [] 1000 (new_pool 2 3600));
           q2 = snd (get_connection None [] 1000 q1);
           q3 = release 0 (put 0 (snd (execute None (\<lambda>q. Inr (Rows [])) 1000 select_one
                                         (conns q2 0))) q2);
           q4 = release 1 (put 1 (snd (execute None (\<lambda>q. Inr (Rows [])) 5000 select_one
                                         (conns q3 1))) q3)
       in members q4 = [0, 1] \<and> idle q4 0 \<and> idle q4 1
          \<and> 5100 - last_used (conns q4 0) > real_of_int (pool_recycle q4)
          \<and> \<not> 5100 - last_used (conns q4 1) > real_of_int (pool_recycle q4)
          \<and> fst (get_connection None [] 5100 q4) = Some (Inr 2)
          \<and> members (snd (get_connection None [] 5100 q4)) = [1, 2]
          \<and> \<not> in_use (conns (snd (get_connection None [] 5100 q4)) 1))"
  by (simp add: used_once_eq pool_eval Let_def)


section \<open>The client: retries, schema, formats and inserts\<close>

lemma retrying_returns:
  "attempt n s = (Some (Inr v), s1) \<Longrightarrow> retrying cap attempt n s = (Some (Inr v), n, [], s1)"
  by (simp add: retrying.simps [of cap attempt n s])

lemma retrying_hangs:
  "attempt n s = (None, s1) \<Longrightarrow> retrying cap attempt n s = (None, n, [], s1)"
  by (simp add: retrying.simps [of cap attempt n s])

lemma retrying_propagates:
  "attempt n s = (Some (Inl e), s1) \<Longrightarrow> \<not> is_ClickHouseError e
   \<Longrightarrow> retrying cap attempt n s = (Some (Inl e), n, [], s1)"
  by (simp add: retrying.simps [of cap attempt n s])

lemma retrying_gives_up:
  "attempt n s = (Some (Inl e), s1) \<Longrightarrow> is_ClickHouseError e \<Longrightarrow> cap \<le> n
   \<Longrightarrow> retrying cap attempt n s = (Some (Inl (RetryError e)), n, [], s1)"
  by (simp add: retrying.simps [of cap attempt n s])

lemma retrying_again:
  "attempt n s = (Some (Inl e), s1) \<Longrightarrow> is_ClickHouseError e \<Longrightarrow> n < cap
   \<Longrightarrow> retrying cap attempt n s =
        (case retrying cap attempt (Suc n) s1 of
           (r, k, sleeps, s2) \<Rightarrow> (r, k, wait_exponential n # sleeps, s2))"
  by (simp add: retrying.simps [of cap attempt n s])

lemma retrying_three_failures:
  assumes "attempt 1 s = (Some (Inl e1), s1)" "is_ClickHouseError e1"
    and "attempt 2 s1 = (Some (Inl e2), s2)" "is_ClickHouseError e2"
    and "attempt 3 s2 = (Some (Inl e3), s3)" "is_ClickHouseError e3"
  shows "retrying 3 attempt 1 s = (Some (Inl (RetryError e3)), 3, [1, 2], s3)"
proof -
  have three: "retrying 3 attempt 3 s2 = (Some (Inl (RetryError e3)), 3, [], s3)"
    using assms(5,6) by (simp add: retrying_gives_up)
  have "retrying 3 attempt (Suc 1) s1 = (Some (Inl (RetryError e3)), 3, [wait_exponential 2], s3)"
    using retrying_again [of attempt 2 s1 e2 s2 3] assms(3,4) three
    by (simp add: numeral_3_eq_3 numeral_2_eq_2)
  then have "retrying 3 attempt 1 s
      = (Some (Inl (RetryError e3)), 3, [wait_exponential 1, wait_exponential 2], s3)"
    using retrying_again [of attempt 1 s e1 s1 3] assms(1,2) by simp
  then show ?thesis by (simp add: wait_exponential_def)
qed


lemma wait_exponential_bounds: "1 \<le> wait_exponential n \<and> wait_exponential n \<le> 10"
  by (simp add: wait_exponential_def)

text \<open>
  C4. What the code does: when the three attempts all raise a \<open>ClickHouseError\<close>, three
  attempts are made, with sleeps of 1 and 2 seconds, and a \<open>RetryError\<close> wrapping the last
  exception is raised (not the exception itself); an exception of another class leaves
  at the first attempt, unchanged; every sleep lies between 1 and 10 seconds.
\<close>

theorem retry_policy:
  "(client_attempt cfg worlds req 1 p = (Some (Inl e1), p1) \<and> is_ClickHouseError e1
    \<and> client_attempt cfg worlds req 2 p1 = (Some (Inl e2), p2) \<and> is_ClickHouseError e2
    \<and> client_attempt cfg worlds req 3 p2 = (Some (Inl e3), p3) \<and> is_ClickHouseError e3
    \<longrightarrow> client_execute cfg worlds req p = (Some (Inl (RetryError e3)), 3, [1, 2], p3))
   \<and> (client_attempt cfg worlds req 1 p = (Some (Inl e), p1) \<and> \<not> is_ClickHouseError e
    \<longrightarrow> client_execute cfg worlds req p = (Some (Inl e), 1, [], p1))
   \<and> (client_attempt cfg worlds req 1 p = (Some (Inr v), p1)
    \<longrightarrow> client_execute cfg worlds req p = (Some (Inr v), 1, [], p1))
   \<and> (client_attempt_with_format cfg up worlds req f 1 p = (Some (Inl e1), p1) \<and> is_ClickHouseError e1
    \<and> client_attempt_with_format cfg up worlds req f 2 p1 = (Some (Inl e2), p2) \<and> is_ClickHouseError e2
    \<and> client_attempt_with_format cfg up worlds req f 3 p2 = (Some (Inl e3), p3) \<and> is_ClickHouseError e3
    \<longrightarrow> client_execute_with_format cfg up worlds req f p = (Some (Inl (RetryError e3)), 3, [1, 2], p3))
   \<and> (client_attempt_with_format cfg up worlds req f 1 p = (Some (Inl e), p1) \<and> \<not> is_ClickHouseError e
    \<longrightarrow> client_execute_with_format cfg up worlds req f p = (Some (Inl e), 1, [], p1))
   \<and> 1 \<le> wait_exponential n \<and> wait_exponential n \<le> 10"
  using retrying_three_failures [of "client_attempt cfg worlds req" p e1 p1 e2 p2 e3 p3]
    retrying_three_failures [of "client_attempt_with_format cfg up worlds req f" p e1 p1 e2 p2 e3 p3]
    retrying_propagates [of "client_attempt cfg worlds req" 1 p e p1 3]
    retrying_propagates [of "client_attempt_with_format cfg up worlds req f" 1 p e p1 3]
    retrying_returns [of "client_attempt cfg worlds req" 1 p v p1 3]
    wait_exponential_bounds [of n]
  by (simp add: client_execute_def client_execute_with_format_def)

lemmas client_eval =
  client_attempt_def client_attempt_with_format_def pool_execute_def
  pool_execute_with_format_def with_connection_def answering_def with_timeout_def
  example_cfg_def execute_with_format_def

lemma attempt_refused_first:
  "client_attempt example_cfg (\<lambda>n. answering (\<lambda>r. Inl refused)) req 1 (new_pool 1 3600)
     = (Some (Inl refused), idle_pool)"
  by (simp add: client_eval pool_eval idle_pool_def)

lemma attempt_refused_again:
  "client_attempt example_cfg (\<lambda>n. answering (\<lambda>r. Inl refused)) req k idle_pool
     = (Some (Inl refused), idle_pool)"
  by (simp add: client_eval pool_eval idle_pool_def)

theorem retry_policy_witness:
  "client_execute example_cfg (\<lambda>n. answering (\<lambda>r. Inl refused)) select_one (new_pool 1 3600)
     = (Some (Inl (RetryError refused)), 3, [1, 2], idle_pool)
   \<and> is_ClickHouseError refused \<and> \<not> is_ClickHouseError (RetryError refused)
   \<and> client_execute example_cfg (\<lambda>n. answering (\<lambda>r. Inl (OtherError ''interrupted'')))
        select_one (new_pool 1 3600)
     = (Some (Inl (OtherError ''interrupted'')), 1, [], idle_pool)"
proof -
  have other: "client_attempt example_cfg (\<lambda>n. answering (\<lambda>r. Inl (OtherError ''interrupted'')))
        select_one 1 (new_pool 1 3600) = (Some (Inl (OtherError ''interrupted'')), idle_pool)"
    by (simp add: client_eval pool_eval idle_pool_def)
  have ch: "is_ClickHouseError refused" by (simp add: refused_def)
  show ?thesis
    using retry_policy [where cfg = example_cfg and worlds = "\<lambda>n. answering (\<lambda>r. Inl refused)"
        and req = select_one and p = "new_pool 1 3600" and ?e1.0 = refused and ?p1.0 = idle_pool
        and ?e2.0 = refused and ?p2.0 = idle_pool and ?e3.0 = refused and ?p3.0 = idle_pool
        and e = refused and f = JSON and n = 1 and v = "Rows []"]
      retry_policy [where cfg = example_cfg
        and worlds = "\<lambda>n. answering (\<lambda>r. Inl (OtherError ''interrupted''))"
        and req = select_one and p = "new_pool 1 3600" and e = "OtherError ''interrupted''"
        and ?p1.0 = idle_pool and ?e1.0 = refused and ?p2.0 = idle_pool
        and ?e2.0 = refused and ?e3.0 = refused and ?p3.0 = idle_pool
        and f = JSON and n = 1 and v = "Rows []"]
      attempt_refused_first attempt_refused_again other ch
    by (simp add: refused_def)
qed















lemma lower_char_not_upper: "\<not> is_upper_case (lower_char c)"
  by (auto simp: is_upper_case_def lower_char_def Let_def)

lemma lower_not_upper: "c \<in> set (lower s) \<Longrightarrow> \<not> is_upper_case c"
  by (auto simp: lower_def lower_char_not_upper)

lemma lower_head: "c # cs = lower s \<Longrightarrow> \<not> is_upper_case c"
  using lower_not_upper [of c s] by (metis list.set_intros(1))

lemma format_value_lower: "format_value f = lower s \<Longrightarrow> f = JSON"
  by (cases f) (auto dest!: lower_head simp: is_upper_case_def)

lemma resolve_format_JSON: "resolve_format format = JSON"
proof (cases "find (\<lambda>f. format_value f = lower format) all_formats")
  case None
  then show ?thesis by (simp add: resolve_format_def ResultFormat_of_value_def)
next
  case (Some f)
  then have "format_value f = lower format" by (auto simp: find_Some_iff)
  from format_value_lower [OF this] Some show ?thesis
    by (simp add: resolve_format_def ResultFormat_of_value_def)
qed

text \<open>
  C8. What the code does: the format name is lower-cased before the lookup by value, and
  no value but \<open>json\<close> is in lower case, so every name resolves to \<open>JSON\<close>; the tool
  always asks for rows with column types and reshapes them into one dictionary per row.
\<close>

theorem format_always_json:
  "resolve_format format = JSON
   \<and> (client_execute cfg worlds
         \<lparr>query = sql, params = ps, with_column_types = True, settings = None\<rparr> p
         = (Some (Inr (RowsWithTypes rs cols)), k, sleeps, p1)
       \<longrightarrow> query_tool cfg up worlds sql format ps p
            = (Some (Inr \<lparr>out_result = Objects (reshape rs cols), out_rows = length rs,
                          out_query = sql, out_format = format\<rparr>), p1))"
  by (simp add: query_tool_def resolve_format_JSON)

lemma select_typed:
  "client_execute example_cfg (\<lambda>n. answering one_row_driver)
      \<lparr>query = (str ''SELECT id, name FROM t''), params = NoParams, with_column_types = True,
        settings = None\<rparr> (new_pool 1 3600)
     = (Some (Inr (RowsWithTypes [[VInt 1, VStr ''x'']]
                     [(''id'', ''UInt8''), (''name'', ''String'')])), 1, [], served_pool)"
proof -
  have "client_attempt example_cfg (\<lambda>n. answering one_row_driver)
      \<lparr>query = (str ''SELECT id, name FROM t''), params = NoParams, with_column_types = True,
        settings = None\<rparr> 1 (new_pool 1 3600)
     = (Some (Inr (RowsWithTypes [[VInt 1, VStr ''x'']]
                     [(''id'', ''UInt8''), (''name'', ''String'')])), served_pool)"
    by (simp add: client_eval pool_eval served_pool_def one_row_driver_def)
  then show ?thesis
    by (simp add: client_execute_def retrying_returns)
qed

theorem format_always_json_witness:
  "resolve_format ''Pretty'' = JSON \<and> resolve_format ''CSV'' = JSON
   \<and> query_tool example_cfg ascii_only (\<lambda>n. answering one_row_driver) (str ''SELECT id, name FROM t'')
        ''pretty'' NoParams (new_pool 1 3600)
     = (Some (Inr \<lparr>out_result = Objects [[(''id'', VInt 1), (''name'', VStr ''x'')]],
                   out_rows = 1, out_query = (str ''SELECT id, name FROM t''),
                   out_format = ''pretty''\<rparr>), served_pool)
   \<and> query_tool example_cfg ascii_only (\<lambda>n. answering one_row_driver) (str ''SELECT id, name FROM t'')
        ''csv'' NoParams (new_pool 1 3600)
     = (Some (Inr \<lparr>out_result = Objects [[(''id'', VInt 1), (''name'', VStr ''x'')]],
                   out_rows = 1, out_query = (str ''SELECT id, name FROM t''),
                   out_format = ''csv''\<rparr>), served_pool)"
proof -
  have shape: "reshape [[VInt 1, VStr ''x'']] [(''id'', ''UInt8''), (''name'', ''String'')]
      = [[(''id'', VInt 1), (''name'', VStr ''x'')]]"
    by (simp add: reshape_def dict_of_def)
  show ?thesis
    using format_always_json [where format = "''Pretty''"]
      format_always_json [where format = "''CSV''"]
      format_always_json [where format = "''pretty''" and cfg = example_cfg
        and worlds = "\<lambda>n. answering one_row_driver" and sql = "str ''SELECT id, name FROM t''"
        and ps = NoParams and p = "new_pool 1 3600" and rs = "[[VInt 1, VStr ''x'']]"
        and cols = "[(''id'', ''UInt8''), (''name'', ''String'')]" and k = 1 and sleeps = "[]"
        and ?p1.0 = served_pool]
      format_always_json [where format = "''csv''" and cfg = example_cfg
        and worlds = "\<lambda>n. answering one_row_driver" and sql = "str ''SELECT id, name FROM t''"
        and ps = NoParams and p = "new_pool 1 3600" and rs = "[[VInt 1, VStr ''x'']]"
        and cols = "[(''id'', ''UInt8''), (''name'', ''String'')]" and k = 1 and sleeps = "[]"
        and ?p1.0 = served_pool]
      select_typed shape
    by simp
qed

text \<open>
  C6. What the code does: an empty row list returns \<open>rows_inserted = 0\<close> and leaves the
  pool untouched; a non-empty one raises \<open>TypeError\<close> at \<open>self.connection()\<close>, before any
  connection is acquired or any statement is sent.
\<close>

theorem insert_data_type_error:
  "insert_data cfg w table [] database given p
     = (Some (Inr \<lparr>i_database = or_default database cfg, i_table = table, rows_inserted = 0\<rparr>), p)
   \<and> (data \<noteq> [] \<longrightarrow>
        insert_data cfg w table data database given p
          = (Some (Inl (TypeError ''__call__() missing 1 required positional argument'')), p))"
  by (cases data) (simp_all add: insert_data_def client_connection_attribute_def)

theorem insert_data_type_error_witness:
  "insert_data example_cfg (answering one_row_driver) ''t''
      [[(''a'', VInt 1), (''b'', VInt 2)], [(''a'', VInt 3)]] None None (new_pool 1 3600)
     = (Some (Inl (TypeError ''__call__() missing 1 required positional argument'')),
        new_pool 1 3600)
   \<and> query (insert_request example_cfg ''t'' [(''a'', VInt 1), (''b'', VInt 2)]
               [[(''a'', VInt 1), (''b'', VInt 2)], [(''a'', VInt 3)]] None None)
     = str ''INSERT INTO default.t (a, b) VALUES''
   \<and> params (insert_request example_cfg ''t'' [(''a'', VInt 1), (''b'', VInt 2)]
               [[(''a'', VInt 1), (''b'', VInt 2)], [(''a'', VInt 3)]] None None)
     = RowParams [[VInt 1, VInt 2], [VInt 3, VNone]]"
proof -
  have ne: "[[(''a'', VInt 1), (''b'', VInt 2)], [(''a'', VInt 3)]] \<noteq> []" by simp
  show ?thesis
    using insert_data_type_error [where cfg = example_cfg and w = "answering one_row_driver"
        and table = "''t''" and data = "[[(''a'', VInt 1), (''b'', VInt 2)], [(''a'', VInt 3)]]"
        and database = None and given = None and p = "new_pool 1 3600"] ne
    by (simp add: insert_request_def or_default_def example_cfg_def dict_get_def)
qed

end
